theory Spec2Isabelle
  imports Main "HOL-Library.Word"
begin

section \<open>Python values used by the indexing notebook\<close>

text \<open>
  A Python \<open>str\<close> is a sequence of Unicode code points: slicing, \<open>len\<close> and
  \<open>endswith\<close> count code points, and the labels of the composite text are not
  ASCII. A string is therefore a list of code points; \<open>ascii\<close> lifts an ASCII
  literal.
\<close>

type_synonym str = "nat list"

definition ascii :: "string \<Rightarrow> str" where
  "ascii s = map of_char s"

text \<open>The exceptions that can end a cell of the notebook.\<close>

datatype error =
    InputError
  | ModelUnavailableError
  | DecodeError
  | DimensionMismatchError
  | StoreUnavailableError
  | AttributeError
  | FileNotFoundError
  | UnicodeDecodeError

text \<open>
  \<open>str(item['Id'])\<close>: the identifier comes out of \<open>json.load\<close> as an integer or as
  a string; \<open>str\<close> of an integer is its decimal numeral, \<open>str\<close> of a string is
  the string.
\<close>

datatype json_id = IdInt int | IdStr str

fun digits :: "nat \<Rightarrow> str" where
  "digits n = (if n < 10 then [48 + n] else digits (n div 10) @ [48 + n mod 10])"

declare digits.simps [simp del]

fun py_str :: "json_id \<Rightarrow> str" where
  "py_str (IdInt i) = (if i < 0 then 45 # digits (nat (- i)) else digits (nat i))"
| "py_str (IdStr s) = s"

section \<open>Catalog items, index entries, the store\<close>

text \<open>One element of \<open>text_data\<close>: the three keys the text cell reads.\<close>

record item =
  item_Id :: json_id
  item_Name :: str
  item_Description :: str

text \<open>
  What one call of \<open>Collection.add\<close> hands to the store: \<open>ids=[..]\<close>,
  \<open>embeddings=[..]\<close>, \<open>metadatas=[{..}]\<close> (a dict literal, kept in the order it
  is written) and \<open>documents=[..]\<close> (absent in the image cell). The embedding is
  whatever the generator returned.
\<close>

record 'v entry =
  entry_id :: str
  embedding :: 'v
  metadata :: "(str \<times> str) list"
  document :: "str option"

text \<open>A collection holds its entries in the order they were added.\<close>

type_synonym 'v collection = "'v entry list"

definition get :: "'v collection \<Rightarrow> str \<Rightarrow> 'v entry option" where
  "get c i = find (\<lambda>e. entry_id e = i) c"

text \<open>
  \<open>Collection.add\<close>, the one method of the store that the two cells call to
  write, for the one-record batches of the notebook. The store is a library
  outside the repository; its \<open>add\<close> is not its \<open>upsert\<close>: a record whose id
  the collection already holds is left out of the write (the stored record stays
  as it is, nothing is raised), and any other record is appended. The notebook
  never calls \<open>Collection.upsert\<close>. Failures of the store are not part of this
  function; the loops below take the store as a parameter that may fail.
\<close>

definition collection_add :: "'v collection \<Rightarrow> 'v entry \<Rightarrow> error + 'v collection" where
  "collection_add c e =
     (if entry_id e \<in> set (map entry_id c) then Inr c else Inr (c @ [e]))"

section \<open>The text cell\<close>

text \<open>
  \<^verbatim>\<open>text = f"<name label>{item['Name']}\n" + f"<description label>{item['Description']}"\<close>
  The two labels are Vietnamese ("book title: ", "book content: "); they are
  given here by their code points, the non-ASCII ones being U+00EA, U+00E1 and
  U+1ED9.
\<close>

definition name_label :: str where
  "name_label = ascii ''T'' @ [0xEA] @ ascii ''n s'' @ [0xE1] @ ascii ''ch: ''"

definition description_label :: str where
  "description_label =
     ascii ''N'' @ [0x1ED9] @ ascii ''i dung s'' @ [0xE1] @ ascii ''ch: ''"

definition composite_text :: "item \<Rightarrow> str" where
  "composite_text it =
     (name_label @ item_Name it @ [10]) @ (description_label @ item_Description it)"

text \<open>The keyword arguments of \<open>text_collection.add\<close> for one item.\<close>

definition text_entry :: "item \<Rightarrow> 'v \<Rightarrow> 'v entry" where
  "text_entry it v =
     \<lparr> entry_id = py_str (item_Id it),
       embedding = v,
       metadata = [(ascii ''id'', py_str (item_Id it)),
                   (ascii ''name'', item_Name it),
                   (ascii ''description'', item_Description it)],
       document = Some (composite_text it) \<rparr>"

text \<open>
  The loop over \<open>text_data\<close>. The generator and the store are the collaborators
  of the cell: \<open>gen\<close> is \<open>text_embedding.generate_text_embedding\<close> and \<open>add\<close>
  the store's \<open>add\<close>; either may raise. Nothing in the cell catches an
  exception, so the first one ends the loop; the collection keeps what was added
  before. The result is the collection and the exception, if any.
\<close>

fun text_pass ::
  "(str \<Rightarrow> error + 'v) \<Rightarrow> ('v collection \<Rightarrow> 'v entry \<Rightarrow> error + 'v collection) \<Rightarrow>
   item list \<Rightarrow> 'v collection \<Rightarrow> 'v collection \<times> error option" where
  "text_pass gen add [] c = (c, None)"
| "text_pass gen add (it # items) c =
     (case gen (composite_text it) of
        Inl e \<Rightarrow> (c, Some e)
      | Inr v \<Rightarrow>
          (case add c (text_entry it v) of
             Inl e \<Rightarrow> (c, Some e)
           | Inr c' \<Rightarrow> text_pass gen add items c'))"

section \<open>The image cell\<close>

text \<open>A Python \<open>bytes\<close> object is a sequence of octets.\<close>

type_synonym byte = "8 word"

subsection \<open>\<open>base64.b64encode\<close> and \<open>bytes.decode('utf-8')\<close>\<close>

definition b64_alphabet :: str where
  "b64_alphabet =
     ascii ''ABCDEFGHIJKLMNOPQRSTUVWXYZabcdefghijklmnopqrstuvwxyz0123456789+/''"

text \<open>The character of a six-bit group; every caller passes a number below 64.\<close>

definition b64_char :: "nat \<Rightarrow> byte" where
  "b64_char n = of_nat (b64_alphabet ! (n mod 64))"

text \<open>
  Three octets give four characters; a last group of one or two octets is
  padded with \<open>=\<close> (61). No line breaks are inserted.
\<close>

fun b64encode :: "byte list \<Rightarrow> byte list" where
  "b64encode (a # b # c # rest) =
     [b64_char (unat a div 4),
      b64_char ((unat a mod 4) * 16 + unat b div 16),
      b64_char ((unat b mod 16) * 4 + unat c div 64),
      b64_char (unat c mod 64)] @ b64encode rest"
| "b64encode [a, b] =
     [b64_char (unat a div 4),
      b64_char ((unat a mod 4) * 16 + unat b div 16),
      b64_char ((unat b mod 16) * 4),
      61]"
| "b64encode [a] =
     [b64_char (unat a div 4),
      b64_char ((unat a mod 4) * 16),
      61, 61]"
| "b64encode [] = []"

text \<open>
  Strict UTF-8 decoding of a sequence of octets (given by their values): one to
  four octets per code point, no overlong forms, no surrogates, nothing above
  U+10FFFF; anything else raises \<open>UnicodeDecodeError\<close>.
\<close>

definition cont :: "nat \<Rightarrow> bool" where
  "cont b = (0x80 \<le> b \<and> b \<le> 0xBF)"

definition emit :: "nat \<Rightarrow> error + str \<Rightarrow> error + str" where
  "emit cp r = (case r of Inl e \<Rightarrow> Inl e | Inr s \<Rightarrow> Inr (cp # s))"

fun utf8_decode :: "nat list \<Rightarrow> error + str" where
  "utf8_decode [] = Inr []"
| "utf8_decode (b # bs) =
     (if b < 0x80 then emit b (utf8_decode bs)
      else if 0xC2 \<le> b \<and> b \<le> 0xDF then
        (case bs of
           c1 # r \<Rightarrow>
             if cont c1 then emit ((b - 0xC0) * 64 + (c1 - 0x80)) (utf8_decode r)
             else Inl UnicodeDecodeError
         | _ \<Rightarrow> Inl UnicodeDecodeError)
      else if 0xE0 \<le> b \<and> b \<le> 0xEF then
        (case bs of
           c1 # c2 # r \<Rightarrow>
             if (if b = 0xE0 then 0xA0 else 0x80) \<le> c1 \<and>
                c1 \<le> (if b = 0xED then 0x9F else 0xBF) \<and> cont c2
             then emit ((b - 0xE0) * 4096 + (c1 - 0x80) * 64 + (c2 - 0x80)) (utf8_decode r)
             else Inl UnicodeDecodeError
         | _ \<Rightarrow> Inl UnicodeDecodeError)
      else if 0xF0 \<le> b \<and> b \<le> 0xF4 then
        (case bs of
           c1 # c2 # c3 # r \<Rightarrow>
             if (if b = 0xF0 then 0x90 else 0x80) \<le> c1 \<and>
                c1 \<le> (if b = 0xF4 then 0x8F else 0xBF) \<and> cont c2 \<and> cont c3
             then emit ((b - 0xF0) * 262144 + (c1 - 0x80) * 4096 + (c2 - 0x80) * 64
                        + (c3 - 0x80)) (utf8_decode r)
             else Inl UnicodeDecodeError
         | _ \<Rightarrow> Inl UnicodeDecodeError)
      else Inl UnicodeDecodeError)"

text \<open>
  \<open>image_to_base64(image_path)\<close>: open the file for reading (a path the file
  system does not hold raises), read all of it, encode, decode. The file system
  is the map from paths to contents.
\<close>

definition image_to_base64 :: "(str \<rightharpoonup> byte list) \<Rightarrow> str \<Rightarrow> error + str" where
  "image_to_base64 fs image_path =
     (case fs image_path of
        None \<Rightarrow> Inl FileNotFoundError
      | Some image_file \<Rightarrow> utf8_decode (map unat (b64encode image_file)))"

subsection \<open>File names\<close>

definition image_extensions :: "str list" where
  "image_extensions =
     [ascii ''.jpg'', ascii ''.jpeg'', ascii ''.png'', ascii ''.bmp'', ascii ''.gif'']"

text \<open>
  \<open>str.lower\<close>, code point by code point. The letters A to Z go to a to z. Two
  code points outside ASCII have a lower case that holds an ASCII letter: U+0130
  gives \<open>i\<close> followed by U+0307, and U+212A gives \<open>k\<close>. Every other code point
  outside ASCII has a lower case outside ASCII and is left as it is here: it
  cannot be part of a suffix that equals one of the ASCII extensions, before or
  after lowering.
\<close>

definition lower_cp :: "nat \<Rightarrow> str" where
  "lower_cp c =
     (if 65 \<le> c \<and> c \<le> 90 then [c + 32]
      else if c = 0x130 then [0x69, 0x307]
      else if c = 0x212A then [0x6B]
      else [c])"

definition lower :: "str \<Rightarrow> str" where
  "lower s = concat (map lower_cp s)"

text \<open>\<open>s.endswith(suffix)\<close>, and \<open>s.endswith(tuple)\<close>: one of the suffixes fits.\<close>

definition endswith1 :: "str \<Rightarrow> str \<Rightarrow> bool" where
  "endswith1 s suffix =
     (length suffix \<le> length s \<and> drop (length s - length suffix) s = suffix)"

definition endswith :: "str \<Rightarrow> str list \<Rightarrow> bool" where
  "endswith s suffixes = list_ex (endswith1 s) suffixes"

text \<open>
  \<open>os.path\<close> depends on the platform; the cell uses \<open>join\<close> and \<open>basename\<close>.
  \<open>posixpath\<close> is the module of the container the repository builds.
\<close>

record ospath =
  path_join :: "str \<Rightarrow> str \<Rightarrow> str"
  path_basename :: "str \<Rightarrow> str"

definition posix_join :: "str \<Rightarrow> str \<Rightarrow> str" where
  "posix_join a b =
     (if take 1 b = ascii ''/'' then b
      else if a = [] \<or> endswith1 a (ascii ''/'') then a @ b
      else a @ ascii ''/'' @ b)"

definition posix_basename :: "str \<Rightarrow> str" where
  "posix_basename p = rev (takeWhile (\<lambda>ch. ch \<noteq> 47) (rev p))"

definition posixpath :: ospath where
  "posixpath = \<lparr> path_join = posix_join, path_basename = posix_basename \<rparr>"

subsection \<open>The loop over the directory tree\<close>

text \<open>
  The keyword arguments of \<open>image_collection.add\<close> for one file. The slice
  \<open>s[5:]\<close> is \<open>drop 5 s\<close>; the slice \<open>s[:-4]\<close> keeps all but the last four
  code points and is empty for a shorter string, which is \<open>take (length s - 4) s\<close>.
\<close>

definition image_entry :: "ospath \<Rightarrow> str \<Rightarrow> str \<Rightarrow> 'v \<Rightarrow> 'v entry" where
  "image_entry os subdir file v =
     \<lparr> entry_id =
         take (length (path_basename os file) - 4) (path_basename os file),
       embedding = v,
       metadata =
         [(ascii ''product_id'', drop 5 (path_basename os subdir)),
          (ascii ''image_id'',
           take (length (path_basename os file) - 4) (path_basename os file))],
       document = None \<rparr>"

text \<open>
  The cell assigns the result of the generator call to the name
  \<open>image_embedding\<close>, the name that holds the generator itself:
  \<^verbatim>\<open>image_embedding = await image_embedding.generate_image_embedding(base64_image)\<close>
  The binding of that name is part of the state of the loop. Once it holds an
  embedding, looking up \<open>generate_image_embedding\<close> on it raises
  \<open>AttributeError\<close>.
\<close>

datatype 'v binding = Generator | Embedding 'v

text \<open>
  The inner loop, over the files of one directory. \<open>gen\<close> is the method
  \<open>generate_image_embedding\<close> of the generator object and \<open>add\<close> the store's
  \<open>add\<close>. As in the text cell, the first exception ends the loops.
\<close>

fun image_files ::
  "ospath \<Rightarrow> (str \<rightharpoonup> byte list) \<Rightarrow> (str \<Rightarrow> error + 'v) \<Rightarrow>
   ('v collection \<Rightarrow> 'v entry \<Rightarrow> error + 'v collection) \<Rightarrow> str \<Rightarrow> str list \<Rightarrow>
   'v binding \<times> 'v collection \<Rightarrow> ('v binding \<times> 'v collection) \<times> error option" where
  "image_files os fs gen add subdir [] st = (st, None)"
| "image_files os fs gen add subdir (file # files) (image_embedding, c) =
     (if endswith (lower file) image_extensions then
        (case image_to_base64 fs (path_join os subdir file) of
           Inl e \<Rightarrow> ((image_embedding, c), Some e)
         | Inr base64_image \<Rightarrow>
             (case image_embedding of
                Embedding v0 \<Rightarrow> ((image_embedding, c), Some AttributeError)
              | Generator \<Rightarrow>
                  (case gen base64_image of
                     Inl e \<Rightarrow> ((image_embedding, c), Some e)
                   | Inr v \<Rightarrow>
                       (case add c (image_entry os subdir file v) of
                          Inl e \<Rightarrow> ((Embedding v, c), Some e)
                        | Inr c' \<Rightarrow>
                            image_files os fs gen add subdir files (Embedding v, c')))))
      else image_files os fs gen add subdir files (image_embedding, c))"

text \<open>
  The outer loop, over what \<open>os.walk(image_data)\<close> yields: each directory of
  the tree with the names of its files (the list of its subdirectories is not
  used).
\<close>

fun image_pass ::
  "ospath \<Rightarrow> (str \<rightharpoonup> byte list) \<Rightarrow> (str \<Rightarrow> error + 'v) \<Rightarrow>
   ('v collection \<Rightarrow> 'v entry \<Rightarrow> error + 'v collection) \<Rightarrow> (str \<times> str list) list \<Rightarrow>
   'v binding \<times> 'v collection \<Rightarrow> ('v binding \<times> 'v collection) \<times> error option" where
  "image_pass os fs gen add [] st = (st, None)"
| "image_pass os fs gen add ((subdir, files) # walk) st =
     (case image_files os fs gen add subdir files st of
        (st', Some e) \<Rightarrow> (st', Some e)
      | (st', None) \<Rightarrow> image_pass os fs gen add walk st')"

section \<open>Opening the store\<close>

text \<open>
  The client holds the collections of the store, each with its name, the
  metadata it was created with and its entries.
\<close>

record 'v stored_collection =
  coll_name :: str
  coll_metadata :: "(str \<times> str) list"
  coll_entries :: "'v collection"

type_synonym 'v client = "'v stored_collection list"

text \<open>
  Modelled from the spec: \<open>get_or_create_collection\<close> belongs to the vector
  store, whose code is not part of the repository. It returns the collection of
  that name if the store holds one, whatever metadata the call passes, and
  creates an empty one with the metadata of the call otherwise.
\<close>

definition get_or_create_collection ::
  "'v client \<Rightarrow> str \<Rightarrow> (str \<times> str) list \<Rightarrow> 'v client \<times> 'v stored_collection" where
  "get_or_create_collection client name md =
     (case find (\<lambda>c. coll_name c = name) client of
        Some c \<Rightarrow> (client, c)
      | None \<Rightarrow>
          (client @ [\<lparr> coll_name = name, coll_metadata = md, coll_entries = [] \<rparr>],
           \<lparr> coll_name = name, coll_metadata = md, coll_entries = [] \<rparr>))"

text \<open>The cell that opens \<open>text_collection\<close> and \<open>image_collection\<close>.\<close>

definition open_collections ::
  "'v client \<Rightarrow> 'v client \<times> 'v stored_collection \<times> 'v stored_collection" where
  "open_collections client =
     (case get_or_create_collection client (ascii ''text_chroma_db'')
             [(ascii ''hnsw:space'', ascii ''cosine'')] of
        (client1, text_collection) \<Rightarrow>
          (case get_or_create_collection client1 (ascii ''image_chroma_db'')
                  [(ascii ''hnsw:space'', ascii ''cosine'')] of
             (client2, image_collection) \<Rightarrow> (client2, text_collection, image_collection)))"

section \<open>Properties of the store\<close>

lemma get_append:
  "get (c @ [e]) i =
     (case get c i of Some x \<Rightarrow> Some x | None \<Rightarrow> if entry_id e = i then Some e else None)"
  by (induction c) (simp_all add: get_def)

lemma get_None_iff: "get c i = None \<longleftrightarrow> i \<notin> set (map entry_id c)"
  by (induction c) (auto simp: get_def)

lemma collection_add_total: "\<exists>c'. collection_add c e = Inr c'"
  by (simp add: collection_add_def)

lemma collection_add_distinct:
  assumes "collection_add c e = Inr c'" and "distinct (map entry_id c)"
  shows "distinct (map entry_id c')"
  using assms by (auto simp: collection_add_def split: if_splits)

lemma collection_add_get:
  assumes "collection_add c e = Inr c'"
  shows "get c' i =
     (case get c i of Some x \<Rightarrow> Some x | None \<Rightarrow> if entry_id e = i then Some e else None)"
proof (cases "entry_id e \<in> set (map entry_id c)")
  case True
  then have "c' = c" using assms by (simp add: collection_add_def)
  moreover have "get c i \<noteq> None" if "entry_id e = i"
    using that True by (simp add: get_None_iff)
  ultimately show ?thesis by (auto split: option.splits)
next
  case False
  then have "c' = c @ [e]" using assms by (simp add: collection_add_def)
  then show ?thesis by (simp add: get_append)
qed

section \<open>Properties of the text cell\<close>

lemma text_pass_written:
  assumes "text_pass gen collection_add items c = (c', r)"
    and "e \<in> set c'" and "e \<notin> set c"
  shows "\<exists>it \<in> set items. \<exists>v. gen (composite_text it) = Inr v \<and> e = text_entry it v"
  using assms
proof (induction items arbitrary: c)
  case Nil
  then show ?case by simp
next
  case (Cons it items)
  show ?case
  proof (cases "gen (composite_text it)")
    case (Inl err)
    with Cons.prems show ?thesis by simp
  next
    case (Inr v)
    obtain c1 where c1: "collection_add c (text_entry it v) = Inr c1"
      using collection_add_total by blast
    with Inr Cons.prems have run: "text_pass gen collection_add items c1 = (c', r)"
      by simp
    show ?thesis
    proof (cases "e \<in> set c1")
      case True
      with c1 Cons.prems(3) have "e = text_entry it v"
        by (auto simp: collection_add_def split: if_splits)
      with Inr show ?thesis by auto
    next
      case False
      from Cons.IH [OF run Cons.prems(2) False] show ?thesis by auto
    qed
  qed
qed

lemma text_pass_distinct:
  assumes "text_pass gen collection_add items c = (c', r)"
    and "distinct (map entry_id c)"
  shows "distinct (map entry_id c')"
  using assms
proof (induction items arbitrary: c)
  case Nil
  then show ?case by simp
next
  case (Cons it items)
  show ?case
  proof (cases "gen (composite_text it)")
    case (Inl err)
    with Cons.prems show ?thesis by simp
  next
    case (Inr v)
    obtain c1 where c1: "collection_add c (text_entry it v) = Inr c1"
      using collection_add_total by blast
    with Inr Cons.prems have run: "text_pass gen collection_add items c1 = (c', r)"
      by simp
    from collection_add_distinct [OF c1 Cons.prems(2)] Cons.IH [OF run]
    show ?thesis by simp
  qed
qed

lemma text_pass_keeps:
  assumes "text_pass gen collection_add items c = (c', r)" and "get c i = Some e"
  shows "get c' i = Some e"
  using assms
proof (induction items arbitrary: c)
  case Nil
  then show ?case by simp
next
  case (Cons it items)
  show ?case
  proof (cases "gen (composite_text it)")
    case (Inl err)
    with Cons.prems show ?thesis by simp
  next
    case (Inr v)
    obtain c1 where c1: "collection_add c (text_entry it v) = Inr c1"
      using collection_add_total by blast
    with Inr Cons.prems have run: "text_pass gen collection_add items c1 = (c', r)"
      by simp
    from collection_add_get [OF c1, of i] Cons.prems(2) have "get c1 i = Some e"
      by simp
    from Cons.IH [OF run this] show ?thesis .
  qed
qed

lemma text_pass_first:
  assumes "text_pass gen collection_add items c = (c', None)"
    and "get c i = None"
    and "find (\<lambda>it. py_str (item_Id it) = i) items = Some x"
  shows "\<exists>v. gen (composite_text x) = Inr v \<and> get c' i = Some (text_entry x v)"
  using assms
proof (induction items arbitrary: c)
  case Nil
  then show ?case by simp
next
  case (Cons it items)
  show ?case
  proof (cases "gen (composite_text it)")
    case (Inl err)
    with Cons.prems show ?thesis by simp
  next
    case (Inr v)
    obtain c1 where c1: "collection_add c (text_entry it v) = Inr c1"
      using collection_add_total by blast
    with Inr Cons.prems have run: "text_pass gen collection_add items c1 = (c', None)"
      by simp
    show ?thesis
    proof (cases "py_str (item_Id it) = i")
      case True
      with Cons.prems(3) have x: "x = it" by simp
      from collection_add_get [OF c1, of i] Cons.prems(2) True
      have "get c1 i = Some (text_entry it v)"
        by (simp add: text_entry_def)
      from text_pass_keeps [OF run this] Inr x show ?thesis by simp
    next
      case False
      with Cons.prems(3) have f: "find (\<lambda>it. py_str (item_Id it) = i) items = Some x"
        by simp
      from collection_add_get [OF c1, of i] Cons.prems(2) False
      have "get c1 i = None"
        by (simp add: text_entry_def)
      from Cons.IH [OF run this f] show ?thesis .
    qed
  qed
qed

lemma get_count:
  assumes "distinct (map entry_id c)" and "get c i = Some e"
  shows "length (filter (\<lambda>e. entry_id e = i) c) = 1"
  using assms
proof (induction c)
  case Nil
  then show ?case by (simp add: get_def)
next
  case (Cons a c)
  show ?case
  proof (cases "entry_id a = i")
    case True
    from Cons.prems(1) have "entry_id a \<notin> entry_id ` set c" by simp
    with True have "\<And>x. x \<in> set c \<Longrightarrow> entry_id x \<noteq> i" by (metis imageI)
    then have "filter (\<lambda>e. entry_id e = i) c = []"
      by (simp add: filter_empty_conv)
    with True show ?thesis by simp
  next
    case False
    with Cons show ?thesis by (simp add: get_def)
  qed
qed

lemma get_Some_id: "get c i = Some e \<Longrightarrow> entry_id e = i \<and> e \<in> set c"
  by (induction c) (auto simp: get_def split: if_splits)

lemma text_pass_all_ids:
  assumes "text_pass gen collection_add items c = (c', None)" and "it \<in> set items"
  shows "get c' (py_str (item_Id it)) \<noteq> None"
proof (cases "get c (py_str (item_Id it))")
  case (Some e)
  from text_pass_keeps [OF assms(1) Some] show ?thesis by simp
next
  case None
  from assms(2) obtain x
    where "find (\<lambda>j. py_str (item_Id j) = py_str (item_Id it)) items = Some x"
    by (cases "find (\<lambda>j. py_str (item_Id j) = py_str (item_Id it)) items")
       (auto simp: find_None_iff)
  from text_pass_first [OF assms(1) None this] show ?thesis by auto
qed

subsection \<open>The loop, item by item\<close>

lemma text_pass_append:
  "text_pass gen add (xs @ ys) c =
     (case text_pass gen add xs c of
        (c1, None) \<Rightarrow> text_pass gen add ys c1
      | (c1, Some e) \<Rightarrow> (c1, Some e))"
  by (induction xs arbitrary: c) (auto split: sum.splits)

lemma text_pass_step:
  assumes "text_pass gen add before c = (c1, None)"
  shows "text_pass gen add (before @ it # after) c =
     (case gen (composite_text it) of
        Inl e \<Rightarrow> (c1, Some e)
      | Inr v \<Rightarrow>
          (case add c1 (text_entry it v) of
             Inl e \<Rightarrow> (c1, Some e)
           | Inr c2 \<Rightarrow> text_pass gen add after c2))"
  using assms by (simp add: text_pass_append)

lemma text_pass_cong:
  assumes "\<forall>x \<in> set items. gen (composite_text x) = gen' (composite_text x)"
  shows "text_pass gen add items c = text_pass gen' add items c"
  using assms by (induction items arbitrary: c) (auto split: sum.splits)

section \<open>Properties of the image cell\<close>

lemma image_files_stuck:
  assumes "image_files os fs gen add subdir files (Embedding v0, c) = ((b', c'), r)"
  shows "b' = Embedding v0 \<and> c' = c"
  using assms
  by (induction files) (auto split: if_splits sum.splits)

lemma image_files_written:
  assumes "image_files os fs gen collection_add subdir files (b, c) = ((b', c'), r)"
    and "e \<in> set c'" and "e \<notin> set c"
  shows "b = Generator \<and>
         (\<exists>file \<in> set files. endswith (lower file) image_extensions \<and>
            (\<exists>t v. image_to_base64 fs (path_join os subdir file) = Inr t \<and>
                   gen t = Inr v \<and> e = image_entry os subdir file v))"
  using assms
proof (induction files)
  case Nil
  then show ?case by simp
next
  case (Cons fname files)
  show ?case
  proof (cases "endswith (lower fname) image_extensions")
    case False
    with Cons show ?thesis by simp
  next
    case True
    show ?thesis
    proof (cases "image_to_base64 fs (path_join os subdir fname)")
      case (Inl err)
      with True Cons.prems show ?thesis by simp
    next
      case t: (Inr t)
      show ?thesis
      proof (cases b)
        case (Embedding v0)
        with True t Cons.prems show ?thesis by simp
      next
        case Generator
        show ?thesis
        proof (cases "gen t")
          case (Inl err)
          with True t Generator Cons.prems show ?thesis by simp
        next
          case v: (Inr v)
          obtain c1 where c1: "collection_add c (image_entry os subdir fname v) = Inr c1"
            using collection_add_total by blast
          with True t Generator v Cons.prems(1)
          have "image_files os fs gen collection_add subdir files (Embedding v, c1) = ((b', c'), r)"
            by simp
          from image_files_stuck [OF this] have "c' = c1" by simp
          with c1 Cons.prems(2,3) have "e = image_entry os subdir fname v"
            by (auto simp: collection_add_def split: if_splits)
          with True t v Generator show ?thesis by auto
        qed
      qed
    qed
  qed
qed

lemma image_files_binding:
  assumes "image_files os fs gen add subdir files (b, c) = ((Generator, c'), r)"
  shows "b = Generator"
proof (cases b)
  case Generator
  then show ?thesis .
next
  case (Embedding v0)
  with assms image_files_stuck [of os fs gen add subdir files v0 c Generator c' r]
  show ?thesis by simp
qed

lemma image_pass_written:
  assumes "image_pass os fs gen collection_add walk (b, c) = ((b', c'), r)"
    and "e \<in> set c'" and "e \<notin> set c"
  shows "b = Generator \<and>
         (\<exists>(subdir, files) \<in> set walk. \<exists>file \<in> set files.
            endswith (lower file) image_extensions \<and>
            (\<exists>t v. image_to_base64 fs (path_join os subdir file) = Inr t \<and>
                   gen t = Inr v \<and> e = image_entry os subdir file v))"
  using assms
proof (induction walk arbitrary: b c)
  case Nil
  then show ?case by simp
next
  case (Cons d walk)
  obtain subdir files where d: "d = (subdir, files)" by (cases d)
  obtain b1 c1 r1
    where f: "image_files os fs gen collection_add subdir files (b, c) = ((b1, c1), r1)"
    by (metis surj_pair)
  show ?case
  proof (cases "e \<in> set c1")
    case True
    from image_files_written [OF f True Cons.prems(3)] d show ?thesis by auto
  next
    case False
    have r1: "r1 = None"
    proof (cases r1)
      case None then show ?thesis .
    next
      case (Some err)
      with f d Cons.prems(1) have "c' = c1" by simp
      with False Cons.prems(2) show ?thesis by simp
    qed
    with f d Cons.prems(1)
    have run: "image_pass os fs gen collection_add walk (b1, c1) = ((b', c'), r)" by simp
    from Cons.IH [OF run Cons.prems(2) False]
    have b1: "b1 = Generator"
      and ex: "\<exists>(subdir, files) \<in> set walk. \<exists>file \<in> set files.
            endswith (lower file) image_extensions \<and>
            (\<exists>t v. image_to_base64 fs (path_join os subdir file) = Inr t \<and>
                   gen t = Inr v \<and> e = image_entry os subdir file v)"
      by simp_all
    from f b1 image_files_binding [of os fs gen collection_add subdir files b c c1 r1]
    have "b = Generator" by simp
    with ex show ?thesis by auto
  qed
qed

lemma image_files_at_most_one:
  assumes "image_files os fs gen collection_add subdir files (b, c) = ((b', c'), r)"
  shows "b' = b \<and> c' = c \<or>
         b = Generator \<and> (\<exists>v. b' = Embedding v) \<and> length c' \<le> Suc (length c)"
  using assms
proof (induction files)
  case Nil
  then show ?case by simp
next
  case (Cons fname files)
  show ?case
  proof (cases "endswith (lower fname) image_extensions")
    case False
    with Cons show ?thesis by simp
  next
    case True
    show ?thesis
    proof (cases "image_to_base64 fs (path_join os subdir fname)")
      case (Inl err)
      with True Cons.prems show ?thesis by simp
    next
      case t: (Inr t)
      show ?thesis
      proof (cases b)
        case (Embedding v0)
        with True t Cons.prems show ?thesis by simp
      next
        case Generator
        show ?thesis
        proof (cases "gen t")
          case (Inl err)
          with True t Generator Cons.prems show ?thesis by simp
        next
          case v: (Inr v)
          obtain c1 where c1: "collection_add c (image_entry os subdir fname v) = Inr c1"
            using collection_add_total by blast
          with True t Generator v Cons.prems(1)
          have "image_files os fs gen collection_add subdir files (Embedding v, c1) = ((b', c'), r)"
            by simp
          from image_files_stuck [OF this] have "b' = Embedding v" "c' = c1" by simp_all
          moreover from c1 have "length c1 \<le> Suc (length c)"
            by (auto simp: collection_add_def split: if_splits)
          ultimately show ?thesis using Generator by simp
        qed
      qed
    qed
  qed
qed

lemma image_pass_at_most_one:
  assumes "image_pass os fs gen collection_add walk (b, c) = ((b', c'), r)"
  shows "length c' \<le> Suc (length c)"
  using assms
proof (induction walk arbitrary: b c)
  case Nil
  then show ?case by simp
next
  case (Cons d walk)
  obtain subdir files where d: "d = (subdir, files)" by (cases d)
  obtain b1 c1 r1
    where f: "image_files os fs gen collection_add subdir files (b, c) = ((b1, c1), r1)"
    by (metis surj_pair)
  show ?case
  proof (cases r1)
    case (Some err)
    with f d Cons.prems have "c' = c1" by simp
    with image_files_at_most_one [OF f] show ?thesis by auto
  next
    case None
    with f d Cons.prems
    have run: "image_pass os fs gen collection_add walk (b1, c1) = ((b', c'), r)" by simp
    from image_files_at_most_one [OF f] show ?thesis
    proof
      assume "b1 = b \<and> c1 = c"
      with Cons.IH [OF run] show ?thesis by simp
    next
      assume "b = Generator \<and> (\<exists>v. b1 = Embedding v) \<and> length c1 \<le> Suc (length c)"
      then obtain v where b1: "b1 = Embedding v" and l: "length c1 \<le> Suc (length c)" by blast
      have "c' = c1" using run unfolding b1
      proof (induction walk)
        case Nil
        then show ?case by simp
      next
        case (Cons d2 walk)
        obtain s2 f2 where d2: "d2 = (s2, f2)" by (cases d2)
        obtain b2 c2 r2
          where g: "image_files os fs gen collection_add s2 f2 (Embedding v, c1) = ((b2, c2), r2)"
          by (metis surj_pair)
        from image_files_stuck [OF g] have s: "b2 = Embedding v" "c2 = c1" by simp_all
        with g d2 Cons show ?case by (cases r2) simp_all
      qed
      with l show ?thesis by simp
    qed
  qed
qed

subsection \<open>The loops, file by file\<close>

lemma image_files_append:
  "image_files os fs gen add subdir (xs @ ys) st =
     (case image_files os fs gen add subdir xs st of
        (st1, None) \<Rightarrow> image_files os fs gen add subdir ys st1
      | (st1, Some e) \<Rightarrow> (st1, Some e))"
proof (induction xs arbitrary: st)
  case Nil
  then show ?case by simp
next
  case (Cons x xs)
  obtain b c where st: "st = (b, c)" by (cases st)
  show ?case unfolding st using Cons.IH
    by (auto split: sum.splits binding.splits)
qed

lemma image_pass_append:
  "image_pass os fs gen add (xs @ ys) st =
     (case image_pass os fs gen add xs st of
        (st1, None) \<Rightarrow> image_pass os fs gen add ys st1
      | (st1, Some e) \<Rightarrow> (st1, Some e))"
proof (induction xs arbitrary: st)
  case Nil
  then show ?case by simp
next
  case (Cons d xs)
  obtain subdir files where d: "d = (subdir, files)" by (cases d)
  show ?case unfolding d using Cons.IH
    by (auto split: prod.splits option.splits)
qed

lemma image_pass_stuck:
  assumes "image_pass os fs gen add walk (Embedding v0, c) = ((b', c'), r)"
  shows "b' = Embedding v0 \<and> c' = c"
  using assms
proof (induction walk)
  case Nil
  then show ?case by simp
next
  case (Cons d walk)
  obtain subdir files where d: "d = (subdir, files)" by (cases d)
  obtain b2 c2 r2
    where g: "image_files os fs gen add subdir files (Embedding v0, c) = ((b2, c2), r2)"
    by (metis surj_pair)
  from image_files_stuck [OF g] have s: "b2 = Embedding v0" "c2 = c" by simp_all
  with g d Cons show ?case by (cases r2) simp_all
qed

lemma image_pass_step:
  assumes "image_pass os fs gen add walk0 st = ((Generator, c1), None)"
    and "image_files os fs gen add subdir before (Generator, c1) = ((Generator, c2), None)"
    and "endswith (lower file) image_extensions"
    and "image_to_base64 fs (path_join os subdir file) = Inr t"
    and "gen t = Inr v"
  shows "image_pass os fs gen add (walk0 @ (subdir, before @ file # after) # walk1) st =
     (case add c2 (image_entry os subdir file v) of
        Inl e \<Rightarrow> ((Embedding v, c2), Some e)
      | Inr c3 \<Rightarrow> image_pass os fs gen add ((subdir, after) # walk1) (Embedding v, c3))"
  using assms
  by (simp add: image_pass_append image_files_append split: sum.splits)

subsection \<open>The filter on file names\<close>

lemma image_files_skips:
  assumes "\<not> endswith (lower fname) image_extensions"
  shows "image_files os fs gen add subdir (fname # files) st =
         image_files os fs gen add subdir files st"
  using assms by (cases st) simp

lemma image_filter_examples:
  "endswith (lower (ascii ''B.JPEG'')) image_extensions"
  "endswith (lower (ascii ''scan.Gif'')) image_extensions"
  "\<not> endswith (lower (ascii ''notes.txt'')) image_extensions"
  "\<not> endswith (lower (ascii ''jpg'')) image_extensions"
  by (simp_all add: endswith_def endswith1_def lower_def lower_cp_def image_extensions_def
      ascii_def)

subsection \<open>Base64 text is ASCII\<close>

lemma b64_alphabet_ascii: "\<forall>x \<in> set b64_alphabet. x < 128"
  by (simp add: b64_alphabet_def ascii_def)

lemma b64_alphabet_length: "length b64_alphabet = 64"
  by (simp add: b64_alphabet_def ascii_def)

lemma b64_char_ascii: "unat (b64_char n) < 128"
proof -
  have "n mod 64 < length b64_alphabet" by (simp add: b64_alphabet_length)
  then have "b64_alphabet ! (n mod 64) \<in> set b64_alphabet" by (rule nth_mem)
  with b64_alphabet_ascii have lt: "b64_alphabet ! (n mod 64) < 128" by blast
  then have "unat (of_nat (b64_alphabet ! (n mod 64)) :: byte) = b64_alphabet ! (n mod 64)"
    by (simp add: unat_of_nat)
  with lt show ?thesis by (simp add: b64_char_def)
qed

lemma b64encode_ascii: "\<forall>x \<in> set (b64encode bs). unat x < 128"
  by (induction bs rule: b64encode.induct) (simp_all add: b64_char_ascii)

lemma b64encode_length: "length (b64encode bs) = 4 * ((length bs + 2) div 3)"
proof (induction bs rule: b64encode.induct)
  case (1 a b c rest)
  have "(length rest + 5) div 3 = Suc ((length rest + 2) div 3)" by presburger
  with 1 show ?case by (simp add: add.commute)
qed simp_all

lemma utf8_decode_ascii: "\<forall>x \<in> set bs. x < 128 \<Longrightarrow> utf8_decode bs = Inr bs"
  by (induction bs) (simp_all add: emit_def)

lemma image_to_base64_eq:
  "image_to_base64 fs p =
     (case fs p of None \<Rightarrow> Inl FileNotFoundError
      | Some bytes \<Rightarrow> Inr (map unat (b64encode bytes)))"
  using b64encode_ascii
  by (auto simp: image_to_base64_def utf8_decode_ascii split: option.splits)

lemma b64encode_rfc4648:
  "b64encode (map of_nat (ascii ''f'')) = map of_nat (ascii ''Zg=='')"
  "b64encode (map of_nat (ascii ''fo'')) = map of_nat (ascii ''Zm8='')"
  "b64encode (map of_nat (ascii ''foo'')) = map of_nat (ascii ''Zm9v'')"
  "b64encode (map of_nat (ascii ''foob'')) = map of_nat (ascii ''Zm9vYg=='')"
  "b64encode (map of_nat (ascii ''fooba'')) = map of_nat (ascii ''Zm9vYmE='')"
  "b64encode (map of_nat (ascii ''foobar'')) = map of_nat (ascii ''Zm9vYmFy'')"
  by (simp_all add: b64_char_def b64_alphabet_def ascii_def)

section \<open>Properties of opening the store\<close>

lemma find_snoc:
  "find P (xs @ [x]) =
     (case find P xs of Some y \<Rightarrow> Some y | None \<Rightarrow> if P x then Some x else None)"
  by (induction xs) simp_all

lemma find_Some_holds: "find P xs = Some y \<Longrightarrow> P y \<and> y \<in> set xs"
  by (induction xs) (auto split: if_splits)

lemma get_or_create_again:
  assumes "get_or_create_collection client name md = (client1, h)"
  shows "get_or_create_collection client1 name md' = (client1, h) \<and> coll_name h = name \<and>
         h \<in> set client1 \<and>
         set (map coll_name client1) = insert name (set (map coll_name client))"
proof (cases "find (\<lambda>c. coll_name c = name) client")
  case None
  with assms have c1: "client1 = client @ [h]"
    and h: "h = \<lparr> coll_name = name, coll_metadata = md, coll_entries = [] \<rparr>"
    by (auto simp: get_or_create_collection_def)
  from None h have "find (\<lambda>c. coll_name c = name) (client @ [h]) = Some h"
    by (simp add: find_snoc)
  with c1 h show ?thesis by (auto simp: get_or_create_collection_def)
next
  case (Some c0)
  with assms have "client1 = client" "h = c0"
    by (simp_all add: get_or_create_collection_def)
  with Some find_Some_holds [OF Some] show ?thesis
    by (auto simp: get_or_create_collection_def)
qed

lemma get_or_create_keeps:
  assumes "get_or_create_collection client name md = (client1, h)"
    and "find (\<lambda>c. coll_name c = name') client = Some c0"
  shows "find (\<lambda>c. coll_name c = name') client1 = Some c0"
  using assms
  by (auto simp: get_or_create_collection_def find_snoc split: option.splits)

text \<open>Facts that evaluate the text cell on a concrete input.\<close>

lemmas text_eval =
  ascii_def name_label_def description_label_def composite_text_def text_entry_def
  collection_add_def get_def digits.simps endswith1_def

text \<open>Facts that evaluate the image cell on a concrete input.\<close>

lemmas image_eval =
  ascii_def posixpath_def posix_join_def posix_basename_def endswith_def endswith1_def
  lower_def lower_cp_def image_extensions_def image_to_base64_eq b64_char_def
  b64_alphabet_def collection_add_def image_entry_def

text \<open>
  A file whose stem the collection already holds: the store's \<open>add\<close> leaves the
  collection as it is, with the entry written earlier for another directory.
\<close>

lemma held_stem_example:
  "image_pass posixpath [ascii ''data/prod_2/7.jpg'' \<mapsto> map of_nat (ascii ''foo'')]
     (\<lambda>t. Inr (length t)) collection_add
     [(ascii ''data/prod_2'', [ascii ''7.jpg''])]
     (Generator,
      [\<lparr> entry_id = ascii ''7'', embedding = 8,
         metadata = [(ascii ''product_id'', ascii ''1''), (ascii ''image_id'', ascii ''7'')],
         document = None \<rparr>])
   = ((Embedding 4,
       [\<lparr> entry_id = ascii ''7'', embedding = 8,
          metadata = [(ascii ''product_id'', ascii ''1''), (ascii ''image_id'', ascii ''7'')],
          document = None \<rparr>]), None)"
  by (simp add: image_eval)

section \<open>The claims about the text cell\<close>

text \<open>
  C3. For every item the text cell reaches, the generator is called with the
  composite text of the item: the name label, the name, a line feed, the
  description label, the description. The same text is the document of the entry
  handed to the store. The generator is consulted on the composite texts of the
  items and nowhere else, every entry the cell writes has the composite text of
  an item as its document and the generator's result for it as its embedding,
  and the composite text depends on the name and the description alone. The
  labels are the Vietnamese ones of the notebook, so the name \<open>Atlas\<close> with the
  description \<open>A map\<close> gives those labels around the two fields, not the English
  labels \<open>Name: \<close> and \<open>Description: \<close>.
\<close>

theorem composite_text_fed_to_generator:
  "(text_pass gen add before c = (c1, None) \<longrightarrow>
      text_pass gen add (before @ it # after) c =
        (case gen (name_label @ item_Name it @ [10] @
                   description_label @ item_Description it) of
           Inl e \<Rightarrow> (c1, Some e)
         | Inr v \<Rightarrow>
             (case add c1 (text_entry it v) of
                Inl e \<Rightarrow> (c1, Some e)
              | Inr c2 \<Rightarrow> text_pass gen add after c2))) \<and>
   document (text_entry it v) =
     Some (name_label @ item_Name it @ [10] @ description_label @ item_Description it) \<and>
   ((\<forall>x \<in> set items. gen (composite_text x) = gen' (composite_text x)) \<longrightarrow>
      text_pass gen add items c0 = text_pass gen' add items c0) \<and>
   (text_pass gen collection_add items c0 = (c', r) \<and> w \<in> set c' \<and> w \<notin> set c0 \<longrightarrow>
      (\<exists>x \<in> set items. document w = Some (composite_text x) \<and>
         gen (composite_text x) = Inr (embedding w))) \<and>
   (item_Name a = item_Name b \<and> item_Description a = item_Description b \<longrightarrow>
      composite_text a = composite_text b) \<and>
   composite_text
     \<lparr> item_Id = i, item_Name = ascii ''Atlas'', item_Description = ascii ''A map'' \<rparr> =
     ascii ''T'' @ [0xEA] @ ascii ''n s'' @ [0xE1] @ ascii ''ch: Atlas'' @ [10] @
     ascii ''N'' @ [0x1ED9] @ ascii ''i dung s'' @ [0xE1] @ ascii ''ch: A map''"
proof (intro conjI impI)
  assume "text_pass gen add before c = (c1, None)"
  from text_pass_step [OF this, of it after]
  show "text_pass gen add (before @ it # after) c =
        (case gen (name_label @ item_Name it @ [10] @
                   description_label @ item_Description it) of
           Inl e \<Rightarrow> (c1, Some e)
         | Inr v \<Rightarrow>
             (case add c1 (text_entry it v) of
                Inl e \<Rightarrow> (c1, Some e)
              | Inr c2 \<Rightarrow> text_pass gen add after c2))"
    by (simp add: composite_text_def)
next
  show "document (text_entry it v) =
     Some (name_label @ item_Name it @ [10] @ description_label @ item_Description it)"
    by (simp add: text_entry_def composite_text_def)
next
  assume "\<forall>x \<in> set items. gen (composite_text x) = gen' (composite_text x)"
  then show "text_pass gen add items c0 = text_pass gen' add items c0"
    by (rule text_pass_cong)
next
  assume "text_pass gen collection_add items c0 = (c', r) \<and> w \<in> set c' \<and> w \<notin> set c0"
  then obtain x v0 where "x \<in> set items" "gen (composite_text x) = Inr v0" "w = text_entry x v0"
    using text_pass_written [of gen items c0 c' r w] by blast
  then show "\<exists>x \<in> set items. document w = Some (composite_text x) \<and>
         gen (composite_text x) = Inr (embedding w)"
    by (auto simp: text_entry_def)
next
  assume "item_Name a = item_Name b \<and> item_Description a = item_Description b"
  then show "composite_text a = composite_text b" by (simp add: composite_text_def)
next
  show "composite_text
     \<lparr> item_Id = i, item_Name = ascii ''Atlas'', item_Description = ascii ''A map'' \<rparr> =
     ascii ''T'' @ [0xEA] @ ascii ''n s'' @ [0xE1] @ ascii ''ch: Atlas'' @ [10] @
     ascii ''N'' @ [0x1ED9] @ ascii ''i dung s'' @ [0xE1] @ ascii ''ch: A map''"
    by (simp add: composite_text_def name_label_def description_label_def ascii_def)
qed

theorem composite_text_fed_to_generator_witness:
  "text_pass (\<lambda>t. if t = ascii ''T'' @ [0xEA] @ ascii ''n s'' @ [0xE1] @ ascii ''ch: Atlas'' @ [10] @
                       ascii ''N'' @ [0x1ED9] @ ascii ''i dung s'' @ [0xE1] @ ascii ''ch: A map''
                  then Inr (1::nat) else Inl InputError) collection_add
     [\<lparr> item_Id = IdInt 1, item_Name = ascii ''Atlas'', item_Description = ascii ''A map'' \<rparr>] []
   = ([text_entry \<lparr> item_Id = IdInt 1, item_Name = ascii ''Atlas'',
                     item_Description = ascii ''A map'' \<rparr> 1], None) \<and>
   text_pass (\<lambda>t. if t = ascii ''T'' @ [0xEA] @ ascii ''n s'' @ [0xE1] @ ascii ''ch: Atlas'' @ [10] @
                       ascii ''N'' @ [0x1ED9] @ ascii ''i dung s'' @ [0xE1] @ ascii ''ch: A map''
                  then Inr (1::nat) else Inl InputError) collection_add
     ([\<lparr> item_Id = IdInt 1, item_Name = ascii ''Atlas'', item_Description = ascii ''A map'' \<rparr>] @
      \<lparr> item_Id = IdInt 2, item_Name = ascii ''Globe'', item_Description = ascii ''A sphere'' \<rparr> #
      []) []
   = ([text_entry \<lparr> item_Id = IdInt 1, item_Name = ascii ''Atlas'',
                     item_Description = ascii ''A map'' \<rparr> 1], Some InputError) \<and>
   text_pass (\<lambda>t. if t = ascii ''T'' @ [0xEA] @ ascii ''n s'' @ [0xE1] @ ascii ''ch: Atlas'' @ [10] @
                       ascii ''N'' @ [0x1ED9] @ ascii ''i dung s'' @ [0xE1] @ ascii ''ch: A map''
                  then Inr (1::nat) else Inl InputError) collection_add
     [\<lparr> item_Id = IdInt 1, item_Name = ascii ''Atlas'', item_Description = ascii ''A map'' \<rparr>] []
   = text_pass (\<lambda>t. Inr 1) collection_add
     [\<lparr> item_Id = IdInt 1, item_Name = ascii ''Atlas'', item_Description = ascii ''A map'' \<rparr>] [] \<and>
   composite_text
     \<lparr> item_Id = IdInt 1, item_Name = ascii ''Atlas'', item_Description = ascii ''A map'' \<rparr> =
   composite_text
     \<lparr> item_Id = IdInt 2, item_Name = ascii ''Atlas'', item_Description = ascii ''A map'' \<rparr>"
  using composite_text_fed_to_generator
    [where gen = "\<lambda>t. if t = ascii ''T'' @ [0xEA] @ ascii ''n s'' @ [0xE1] @ ascii ''ch: Atlas'' @ [10] @
                       ascii ''N'' @ [0x1ED9] @ ascii ''i dung s'' @ [0xE1] @ ascii ''ch: A map''
                  then Inr (1::nat) else Inl InputError"
       and add = collection_add
       and before = "[\<lparr> item_Id = IdInt 1, item_Name = ascii ''Atlas'',
                        item_Description = ascii ''A map'' \<rparr>]"
       and c = "[]"
       and ?c1.0 = "[text_entry \<lparr> item_Id = IdInt 1, item_Name = ascii ''Atlas'',
                     item_Description = ascii ''A map'' \<rparr> 1]"
       and it = "\<lparr> item_Id = IdInt 2, item_Name = ascii ''Globe'',
                   item_Description = ascii ''A sphere'' \<rparr>"
       and after = "[]"
       and items = "[\<lparr> item_Id = IdInt 1, item_Name = ascii ''Atlas'',
                       item_Description = ascii ''A map'' \<rparr>]"
       and gen' = "\<lambda>t. Inr 1"
       and ?c0.0 = "[]"
       and c' = "[text_entry \<lparr> item_Id = IdInt 1, item_Name = ascii ''Atlas'',
                     item_Description = ascii ''A map'' \<rparr> 1]"
       and r = None
       and w = "text_entry \<lparr> item_Id = IdInt 1, item_Name = ascii ''Atlas'',
                     item_Description = ascii ''A map'' \<rparr> 1"
       and a = "\<lparr> item_Id = IdInt 1, item_Name = ascii ''Atlas'',
                  item_Description = ascii ''A map'' \<rparr>"
       and b = "\<lparr> item_Id = IdInt 2, item_Name = ascii ''Atlas'',
                  item_Description = ascii ''A map'' \<rparr>"]
  by (simp add: text_eval)

text \<open>
  C3 as the specification words it fails: the composite text of \<open>Atlas\<close> and
  \<open>A map\<close> is not \<open>Name: Atlas\<close>, a line feed, \<open>Description: A map\<close>.
\<close>

theorem composite_text_english_counterexample:
  "composite_text
     \<lparr> item_Id = IdInt 1, item_Name = ascii ''Atlas'', item_Description = ascii ''A map'' \<rparr>
     \<noteq> ascii ''Name: Atlas'' @ [10] @ ascii ''Description: A map''"
  by (simp add: composite_text_def name_label_def description_label_def ascii_def)

text \<open>
  C8. For every item the text cell reaches and whose embedding the generator
  returns, the entry handed to the store's \<open>add\<close> has the item's id as a
  string as its id, exactly the item's id, name and description as its metadata,
  and the composite text as its document. With the store's \<open>add\<close>, the
  collection then holds under that id this entry, or the entry it held under
  that id before the item. Every entry the cell writes has this form for an item
  of the input, and when the cell runs to its end the collection holds an entry
  under the id of every item.
\<close>

theorem text_entry_handed_to_add:
  "(text_pass gen add before c = (c1, None) \<and> gen (composite_text it) = Inr v \<longrightarrow>
      text_pass gen add (before @ it # after) c =
        (case add c1 \<lparr> entry_id = py_str (item_Id it), embedding = v,
                        metadata = [(ascii ''id'', py_str (item_Id it)),
                                    (ascii ''name'', item_Name it),
                                    (ascii ''description'', item_Description it)],
                        document = Some (composite_text it) \<rparr> of
           Inl e \<Rightarrow> (c1, Some e)
         | Inr c2 \<Rightarrow> text_pass gen add after c2) \<and>
      (add = collection_add \<longrightarrow>
         get (fst (text_pass gen add (before @ it # after) c)) (py_str (item_Id it)) =
           Some (case get c1 (py_str (item_Id it)) of
                   Some held \<Rightarrow> held
                 | None \<Rightarrow>
                     \<lparr> entry_id = py_str (item_Id it), embedding = v,
                       metadata = [(ascii ''id'', py_str (item_Id it)),
                                   (ascii ''name'', item_Name it),
                                   (ascii ''description'', item_Description it)],
                       document = Some (composite_text it) \<rparr>))) \<and>
   (text_pass gen collection_add items c0 = (c', r) \<longrightarrow>
      (\<forall>w \<in> set c'. w \<notin> set c0 \<longrightarrow>
         (\<exists>x \<in> set items.
            entry_id w = py_str (item_Id x) \<and>
            metadata w = [(ascii ''id'', py_str (item_Id x)),
                          (ascii ''name'', item_Name x),
                          (ascii ''description'', item_Description x)] \<and>
            document w = Some (composite_text x) \<and>
            gen (composite_text x) = Inr (embedding w))) \<and>
      (r = None \<longrightarrow> (\<forall>x \<in> set items. \<exists>w \<in> set c'. entry_id w = py_str (item_Id x))))"
proof (intro conjI impI ballI)
  assume a: "text_pass gen add before c = (c1, None) \<and> gen (composite_text it) = Inr v"
  then have b: "text_pass gen add before c = (c1, None)" by simp
  from text_pass_step [OF b, of it after] a
  show "text_pass gen add (before @ it # after) c =
        (case add c1 \<lparr> entry_id = py_str (item_Id it), embedding = v,
                        metadata = [(ascii ''id'', py_str (item_Id it)),
                                    (ascii ''name'', item_Name it),
                                    (ascii ''description'', item_Description it)],
                        document = Some (composite_text it) \<rparr> of
           Inl e \<Rightarrow> (c1, Some e)
         | Inr c2 \<Rightarrow> text_pass gen add after c2)"
    by (simp add: text_entry_def)
next
  assume a: "text_pass gen add before c = (c1, None) \<and> gen (composite_text it) = Inr v"
    and add: "add = collection_add"
  from a have b: "text_pass gen add before c = (c1, None)" by simp
  obtain c2 where c2: "collection_add c1 (text_entry it v) = Inr c2"
    using collection_add_total by blast
  obtain c3 r3 where rest: "text_pass gen collection_add after c2 = (c3, r3)"
    by (metis surj_pair)
  from text_pass_step [OF b, of it after] a add c2 rest
  have full: "text_pass gen add (before @ it # after) c = (c3, r3)" by simp
  from collection_add_get [OF c2, of "py_str (item_Id it)"]
  have "get c2 (py_str (item_Id it)) =
      Some (case get c1 (py_str (item_Id it)) of
              Some held \<Rightarrow> held | None \<Rightarrow> text_entry it v)"
    by (simp add: text_entry_def split: option.splits)
  from text_pass_keeps [OF rest this] full
  show "get (fst (text_pass gen add (before @ it # after) c)) (py_str (item_Id it)) =
           Some (case get c1 (py_str (item_Id it)) of
                   Some held \<Rightarrow> held
                 | None \<Rightarrow>
                     \<lparr> entry_id = py_str (item_Id it), embedding = v,
                       metadata = [(ascii ''id'', py_str (item_Id it)),
                                   (ascii ''name'', item_Name it),
                                   (ascii ''description'', item_Description it)],
                       document = Some (composite_text it) \<rparr>)"
    by (simp add: text_entry_def split: option.splits)
next
  fix w
  assume p: "text_pass gen collection_add items c0 = (c', r)" and "w \<in> set c'" "w \<notin> set c0"
  from text_pass_written [OF this] obtain x v0
    where "x \<in> set items" "gen (composite_text x) = Inr v0" "w = text_entry x v0"
    by blast
  then show "\<exists>x \<in> set items.
            entry_id w = py_str (item_Id x) \<and>
            metadata w = [(ascii ''id'', py_str (item_Id x)),
                          (ascii ''name'', item_Name x),
                          (ascii ''description'', item_Description x)] \<and>
            document w = Some (composite_text x) \<and>
            gen (composite_text x) = Inr (embedding w)"
    by (auto simp: text_entry_def)
next
  fix x
  assume p: "text_pass gen collection_add items c0 = (c', r)" and "r = None" "x \<in> set items"
  with text_pass_all_ids [of gen items c0 c' x]
  obtain w where "get c' (py_str (item_Id x)) = Some w" by auto
  from get_Some_id [OF this] show "\<exists>w \<in> set c'. entry_id w = py_str (item_Id x)" by auto
qed

theorem text_entry_handed_to_add_witness:
  "text_pass (\<lambda>t. Inr (length t)) collection_add
     [\<lparr> item_Id = IdInt 7, item_Name = ascii ''Atlas'', item_Description = ascii ''A map'' \<rparr>] []
   = ([text_entry \<lparr> item_Id = IdInt 7, item_Name = ascii ''Atlas'',
                     item_Description = ascii ''A map'' \<rparr> 36], None) \<and>
   text_pass (\<lambda>t. Inr (length t)) collection_add
     ([\<lparr> item_Id = IdInt 7, item_Name = ascii ''Atlas'', item_Description = ascii ''A map'' \<rparr>] @
      \<lparr> item_Id = IdInt 8, item_Name = ascii ''Globe'', item_Description = ascii ''A sphere'' \<rparr> #
      []) []
   = ([text_entry \<lparr> item_Id = IdInt 7, item_Name = ascii ''Atlas'',
                     item_Description = ascii ''A map'' \<rparr> 36,
       \<lparr> entry_id = ascii ''8'', embedding = 39,
         metadata = [(ascii ''id'', ascii ''8''), (ascii ''name'', ascii ''Globe''),
                     (ascii ''description'', ascii ''A sphere'')],
         document = Some (composite_text
            \<lparr> item_Id = IdInt 8, item_Name = ascii ''Globe'',
               item_Description = ascii ''A sphere'' \<rparr>) \<rparr>], None)"
  using text_entry_handed_to_add
    [where gen = "\<lambda>t. Inr (length t)" and add = collection_add
       and before = "[\<lparr> item_Id = IdInt 7, item_Name = ascii ''Atlas'',
                        item_Description = ascii ''A map'' \<rparr>]"
       and c = "[]"
       and ?c1.0 = "[text_entry \<lparr> item_Id = IdInt 7, item_Name = ascii ''Atlas'',
                     item_Description = ascii ''A map'' \<rparr> 36]"
       and it = "\<lparr> item_Id = IdInt 8, item_Name = ascii ''Globe'',
                   item_Description = ascii ''A sphere'' \<rparr>"
       and v = 39 and after = "[]"
       and items = "[\<lparr> item_Id = IdInt 7, item_Name = ascii ''Atlas'',
                       item_Description = ascii ''A map'' \<rparr>]"
       and ?c0.0 = "[]"
       and c' = "[text_entry \<lparr> item_Id = IdInt 7, item_Name = ascii ''Atlas'',
                     item_Description = ascii ''A map'' \<rparr> 36]"
       and r = None]
  by (simp add: text_eval)

text \<open>
  C1. The store's \<open>add\<close> never creates a duplicate, and it does not overwrite:
  after two insertions with the same id into a collection without duplicates the
  collection holds exactly one entry for that id, the one it held before or else
  the first of the two. So when the input of the text cell has several items
  with one id (and the collection did not hold that id), a run to the end leaves
  exactly one entry for it, built from the first of those items.
\<close>

theorem add_keeps_first_write:
  "(collection_add c e1 = Inr c1 \<and> collection_add c1 e2 = Inr c2 \<and>
    entry_id e2 = entry_id e1 \<and> distinct (map entry_id c) \<longrightarrow>
      c2 = c1 \<and>
      length (filter (\<lambda>e. entry_id e = entry_id e1) c2) = 1 \<and>
      get c2 (entry_id e1) =
        Some (case get c (entry_id e1) of Some e0 \<Rightarrow> e0 | None \<Rightarrow> e1)) \<and>
   (text_pass gen collection_add items c = (c', None) \<and> distinct (map entry_id c) \<and>
    get c i = None \<and> find (\<lambda>it. py_str (item_Id it) = i) items = Some x \<longrightarrow>
      length (filter (\<lambda>e. entry_id e = i) c') = 1 \<and>
      (\<exists>v. gen (composite_text x) = Inr v \<and> get c' i = Some (text_entry x v)))"
proof (intro conjI impI)
  assume a: "collection_add c e1 = Inr c1 \<and> collection_add c1 e2 = Inr c2 \<and>
    entry_id e2 = entry_id e1 \<and> distinct (map entry_id c)"
  then have g1: "get c1 (entry_id e1) =
      Some (case get c (entry_id e1) of Some e0 \<Rightarrow> e0 | None \<Rightarrow> e1)"
    using collection_add_get [of c e1 c1 "entry_id e1"] by (simp split: option.splits)
  then have "entry_id e2 \<in> set (map entry_id c1)"
    using a get_None_iff [of c1 "entry_id e1"] by auto
  moreover from a have "collection_add c1 e2 = Inr c2" by simp
  ultimately show c21: "c2 = c1" by (simp add: collection_add_def)
  from a collection_add_distinct [of c e1 c1] have "distinct (map entry_id c1)" by simp
  from get_count [OF this g1] c21
  show "length (filter (\<lambda>e. entry_id e = entry_id e1) c2) = 1" by simp
  from g1 c21 show "get c2 (entry_id e1) =
      Some (case get c (entry_id e1) of Some e0 \<Rightarrow> e0 | None \<Rightarrow> e1)" by simp
next
  assume a: "text_pass gen collection_add items c = (c', None) \<and> distinct (map entry_id c) \<and>
    get c i = None \<and> find (\<lambda>it. py_str (item_Id it) = i) items = Some x"
  then obtain v where v: "gen (composite_text x) = Inr v" "get c' i = Some (text_entry x v)"
    using text_pass_first [of gen items c c' i x] by blast
  from a text_pass_distinct [of gen items c c' None] have "distinct (map entry_id c')" by simp
  from get_count [OF this v(2)] show "length (filter (\<lambda>e. entry_id e = i) c') = 1" .
  from v show "\<exists>v. gen (composite_text x) = Inr v \<and> get c' i = Some (text_entry x v)" by blast
qed

theorem add_keeps_first_write_witness:
  "text_pass (\<lambda>t. Inr (length t)) collection_add
     [\<lparr> item_Id = IdInt 1, item_Name = ascii ''Atlas'', item_Description = ascii ''A map'' \<rparr>,
      \<lparr> item_Id = IdInt 1, item_Name = ascii ''Globe'', item_Description = ascii ''A sphere'' \<rparr>]
     []
   = ([text_entry \<lparr> item_Id = IdInt 1, item_Name = ascii ''Atlas'',
                    item_Description = ascii ''A map'' \<rparr> 36], None) \<and>
   get [text_entry \<lparr> item_Id = IdInt 1, item_Name = ascii ''Atlas'',
                    item_Description = ascii ''A map'' \<rparr> (36::nat)] (ascii ''1'')
   = Some (text_entry \<lparr> item_Id = IdInt 1, item_Name = ascii ''Atlas'',
                    item_Description = ascii ''A map'' \<rparr> 36)"
  using add_keeps_first_write
    [THEN conjunct2,
     of "\<lambda>t. Inr (length t)"
        "[\<lparr> item_Id = IdInt 1, item_Name = ascii ''Atlas'', item_Description = ascii ''A map'' \<rparr>,
          \<lparr> item_Id = IdInt 1, item_Name = ascii ''Globe'', item_Description = ascii ''A sphere'' \<rparr>]"
        "[]"
        "[text_entry \<lparr> item_Id = IdInt 1, item_Name = ascii ''Atlas'',
                    item_Description = ascii ''A map'' \<rparr> 36]"
        "ascii ''1''"
        "\<lparr> item_Id = IdInt 1, item_Name = ascii ''Atlas'', item_Description = ascii ''A map'' \<rparr>"]
  by (simp add: text_eval)

text \<open>
  C1 as the specification words it fails: with two items of id 1 the entry left
  under that id is the one of the first item, not the one of the later item.
\<close>

theorem later_item_wins_counterexample:
  "get (fst (text_pass (\<lambda>t. Inr (length t)) collection_add
     [\<lparr> item_Id = IdInt 1, item_Name = ascii ''Atlas'', item_Description = ascii ''A map'' \<rparr>,
      \<lparr> item_Id = IdInt 1, item_Name = ascii ''Globe'', item_Description = ascii ''A sphere'' \<rparr>]
     [])) (ascii ''1'')
   = Some (text_entry \<lparr> item_Id = IdInt 1, item_Name = ascii ''Atlas'',
                    item_Description = ascii ''A map'' \<rparr> 36) \<and>
   get (fst (text_pass (\<lambda>t. Inr (length t)) collection_add
     [\<lparr> item_Id = IdInt 1, item_Name = ascii ''Atlas'', item_Description = ascii ''A map'' \<rparr>,
      \<lparr> item_Id = IdInt 1, item_Name = ascii ''Globe'', item_Description = ascii ''A sphere'' \<rparr>]
     [])) (ascii ''1'')
   \<noteq> Some (text_entry \<lparr> item_Id = IdInt 1, item_Name = ascii ''Globe'',
                    item_Description = ascii ''A sphere'' \<rparr> 39) \<and>
   (\<lambda>t. Inr (length t) :: error + nat) (composite_text
      \<lparr> item_Id = IdInt 1, item_Name = ascii ''Globe'', item_Description = ascii ''A sphere'' \<rparr>)
   = Inr 39"
  by (simp add: text_eval)

text \<open>
  C2. A failure of the generator or of the store on one item ends the whole
  loop: the items before it have been processed, the failing item and every item
  after it are not, and the exception is what the cell ends with.
\<close>

theorem text_pass_halts:
  assumes "text_pass gen add before c = (c1, None)"
    and "gen (composite_text it) = Inl e \<or>
         (\<exists>v. gen (composite_text it) = Inr v \<and> add c1 (text_entry it v) = Inl e)"
  shows "text_pass gen add (before @ it # after) c = (c1, Some e)"
  using assms
proof (induction before arbitrary: c)
  case Nil
  then show ?case by auto
next
  case (Cons a before)
  show ?case
  proof (cases "gen (composite_text a)")
    case (Inl err)
    with Cons.prems show ?thesis by simp
  next
    case (Inr v)
    show ?thesis
    proof (cases "add c (text_entry a v)")
      case (Inl err)
      with Inr Cons.prems show ?thesis by simp
    next
      case c2: (Inr c2)
      with Inr Cons.prems have "text_pass gen add before c2 = (c1, None)" by simp
      from Cons.IH [OF this Cons.prems(2)] Inr c2 show ?thesis by simp
    qed
  qed
qed

theorem text_pass_halts_witness:
  "text_pass (\<lambda>t. if endswith1 t description_label then Inl InputError else Inr (length t))
     collection_add
     (map (\<lambda>(k, d). \<lparr> item_Id = IdInt k, item_Name = ascii ''Book'', item_Description = d \<rparr>)
        [(1, ascii ''one''), (2, ascii ''two'')]) []
   = (map (\<lambda>(k, d). text_entry
            \<lparr> item_Id = IdInt k, item_Name = ascii ''Book'', item_Description = d \<rparr> 33)
        [(1, ascii ''one''), (2, ascii ''two'')], None) \<and>
   text_pass (\<lambda>t. if endswith1 t description_label then Inl InputError else Inr (length t))
     collection_add
     (map (\<lambda>(k, d). \<lparr> item_Id = IdInt k, item_Name = ascii ''Book'', item_Description = d \<rparr>)
        [(1, ascii ''one''), (2, ascii ''two'')] @
      \<lparr> item_Id = IdInt 3, item_Name = ascii ''Book'', item_Description = [] \<rparr> #
      map (\<lambda>(k, d). \<lparr> item_Id = IdInt k, item_Name = ascii ''Book'', item_Description = d \<rparr>)
        [(4, ascii ''four''), (5, ascii ''five'')]) []
   = (map (\<lambda>(k, d). text_entry
            \<lparr> item_Id = IdInt k, item_Name = ascii ''Book'', item_Description = d \<rparr> 33)
        [(1, ascii ''one''), (2, ascii ''two'')], Some InputError)"
  using text_pass_halts
    [of "\<lambda>t. if endswith1 t description_label then Inl InputError else Inr (length t)"
        collection_add
        "map (\<lambda>(k, d). \<lparr> item_Id = IdInt k, item_Name = ascii ''Book'', item_Description = d \<rparr>)
           [(1, ascii ''one''), (2, ascii ''two'')]"
        "[]"
        "map (\<lambda>(k, d). text_entry
            \<lparr> item_Id = IdInt k, item_Name = ascii ''Book'', item_Description = d \<rparr> 33)
           [(1, ascii ''one''), (2, ascii ''two'')]"
        "\<lparr> item_Id = IdInt 3, item_Name = ascii ''Book'', item_Description = [] \<rparr>"
        InputError
        "map (\<lambda>(k, d). \<lparr> item_Id = IdInt k, item_Name = ascii ''Book'', item_Description = d \<rparr>)
           [(4, ascii ''four''), (5, ascii ''five'')]"]
  by (simp add: text_eval)

text \<open>
  C2 as the specification words it fails: in a batch of five items whose third
  item makes the generator raise \<open>InputError\<close>, the collection ends with the
  items 1 and 2 only.
\<close>

theorem failure_contained_counterexample:
  "snd (text_pass (\<lambda>t. if endswith1 t description_label then Inl InputError else Inr (length t))
     collection_add
     (map (\<lambda>(k, d). \<lparr> item_Id = IdInt k, item_Name = ascii ''Book'', item_Description = d \<rparr>)
        [(1, ascii ''one''), (2, ascii ''two''), (3, []), (4, ascii ''four''),
         (5, ascii ''five'')]) []) = Some InputError \<and>
   map entry_id
     (fst (text_pass (\<lambda>t. if endswith1 t description_label then Inl InputError else Inr (length t))
     collection_add
     (map (\<lambda>(k, d). \<lparr> item_Id = IdInt k, item_Name = ascii ''Book'', item_Description = d \<rparr>)
        [(1, ascii ''one''), (2, ascii ''two''), (3, []), (4, ascii ''four''),
         (5, ascii ''five'')]) [])) = [ascii ''1'', ascii ''2'']"
  by (simp add: text_eval)

section \<open>The claims about the image cell\<close>

text \<open>
  C9. What the image cell hands to the generator for a file is the base64 text
  of the bytes of the file (four characters for every three bytes, padded),
  decoded to a string; the decoding cannot fail, being of ASCII characters. The
  generator is called with that string and with nothing else of the file, and
  the embedding of every entry the cell writes is the generator's result for the
  base64 text of one of the files walked.
\<close>

theorem generator_input_base64:
  "(endswith (lower file) image_extensions \<and> fs (path_join os subdir file) = Some bytes \<longrightarrow>
      image_to_base64 fs (path_join os subdir file) = Inr (map unat (b64encode bytes)) \<and>
      length (map unat (b64encode bytes)) = 4 * ((length bytes + 2) div 3) \<and>
      image_files os fs gen add subdir (file # files) (Generator, c) =
        (case gen (map unat (b64encode bytes)) of
           Inl e \<Rightarrow> ((Generator, c), Some e)
         | Inr v \<Rightarrow>
             (case add c (image_entry os subdir file v) of
                Inl e \<Rightarrow> ((Embedding v, c), Some e)
              | Inr c1 \<Rightarrow> image_files os fs gen add subdir files (Embedding v, c1)))) \<and>
   (image_pass os fs gen collection_add walk (b0, c0) = ((b', c'), r) \<and>
    w \<in> set c' \<and> w \<notin> set c0 \<longrightarrow>
      (\<exists>(subdir, files) \<in> set walk. \<exists>file \<in> set files. \<exists>bytes.
         fs (path_join os subdir file) = Some bytes \<and>
         gen (map unat (b64encode bytes)) = Inr (embedding w)))"
proof (intro conjI impI)
  assume a: "endswith (lower file) image_extensions \<and> fs (path_join os subdir file) = Some bytes"
  then show t: "image_to_base64 fs (path_join os subdir file) = Inr (map unat (b64encode bytes))"
    by (simp add: image_to_base64_eq)
  show "length (map unat (b64encode bytes)) = 4 * ((length bytes + 2) div 3)"
    by (simp add: b64encode_length)
  from a t show "image_files os fs gen add subdir (file # files) (Generator, c) =
        (case gen (map unat (b64encode bytes)) of
           Inl e \<Rightarrow> ((Generator, c), Some e)
         | Inr v \<Rightarrow>
             (case add c (image_entry os subdir file v) of
                Inl e \<Rightarrow> ((Embedding v, c), Some e)
              | Inr c1 \<Rightarrow> image_files os fs gen add subdir files (Embedding v, c1)))"
    by (simp split: sum.splits)
next
  assume a: "image_pass os fs gen collection_add walk (b0, c0) = ((b', c'), r) \<and>
    w \<in> set c' \<and> w \<notin> set c0"
  then obtain subdir files fname t v
    where m: "(subdir, files) \<in> set walk" "fname \<in> set files"
      and t: "image_to_base64 fs (path_join os subdir fname) = Inr t"
      and v: "gen t = Inr v" "w = image_entry os subdir fname v"
    using image_pass_written [of os fs gen walk b0 c0 b' c' r w] by auto
  from t obtain bytes where "fs (path_join os subdir fname) = Some bytes"
    and "t = map unat (b64encode bytes)"
    by (auto simp: image_to_base64_eq split: option.splits)
  with m v show "\<exists>(subdir, files) \<in> set walk. \<exists>file \<in> set files. \<exists>bytes.
         fs (path_join os subdir file) = Some bytes \<and>
         gen (map unat (b64encode bytes)) = Inr (embedding w)"
    by (auto simp: image_entry_def)
qed

theorem generator_input_base64_witness:
  "image_pass posixpath [ascii ''data/prod_42/7.jpg'' \<mapsto> map of_nat (ascii ''foo'')]
     (\<lambda>t. Inr t) collection_add
     [(ascii ''data'', []), (ascii ''data/prod_42'', [ascii ''7.jpg''])] (Generator, [])
   = ((Embedding (ascii ''Zm9v''),
       [image_entry posixpath (ascii ''data/prod_42'') (ascii ''7.jpg'') (ascii ''Zm9v'')]),
      None) \<and>
   image_to_base64 [ascii ''data/prod_42/7.jpg'' \<mapsto> map of_nat (ascii ''foo'')]
     (path_join posixpath (ascii ''data/prod_42'') (ascii ''7.jpg'')) = Inr (ascii ''Zm9v'')"
  using generator_input_base64
    [of "ascii ''7.jpg''" "[ascii ''data/prod_42/7.jpg'' \<mapsto> map of_nat (ascii ''foo'')]"
        posixpath "ascii ''data/prod_42''" "map of_nat (ascii ''foo'')"
        "\<lambda>t. Inr t" collection_add "[]" "[]"
        "[(ascii ''data'', []), (ascii ''data/prod_42'', [ascii ''7.jpg''])]"
        Generator "[]" "Embedding (ascii ''Zm9v'')"
        "[image_entry posixpath (ascii ''data/prod_42'') (ascii ''7.jpg'') (ascii ''Zm9v'')]"
        None
        "image_entry posixpath (ascii ''data/prod_42'') (ascii ''7.jpg'') (ascii ''Zm9v'')"]
  by (simp add: image_eval)

text \<open>
  C4. For every image file the image cell processes (reached while the name
  \<open>image_embedding\<close> still holds the generator, read and embedded), the entry
  handed to the store's \<open>add\<close> carries as \<open>product_id\<close> the name of the
  directory that holds the file without its first five characters, whatever they
  are. With the store's \<open>add\<close> that entry is appended, unless the collection
  already holds its id and stays as it is. Every entry the cell writes is the
  entry of a file of the walk, with the \<open>product_id\<close> of the directory of that
  file. For the directory name \<open>prod_42\<close> the \<open>product_id\<close> is \<open>42\<close>.
\<close>

theorem product_id_of_parent_directory:
  "(image_pass os fs gen add walk0 st = ((Generator, c1), None) \<and>
    image_files os fs gen add subdir before (Generator, c1) = ((Generator, c2), None) \<and>
    endswith (lower fname) image_extensions \<and>
    image_to_base64 fs (path_join os subdir fname) = Inr t \<and> gen t = Inr v \<longrightarrow>
      image_pass os fs gen add (walk0 @ (subdir, before @ fname # after) # walk1) st =
        (case add c2
                \<lparr> entry_id =
                    take (length (path_basename os fname) - 4) (path_basename os fname),
                  embedding = v,
                  metadata =
                    [(ascii ''product_id'', drop 5 (path_basename os subdir)),
                     (ascii ''image_id'',
                      take (length (path_basename os fname) - 4) (path_basename os fname))],
                  document = None \<rparr> of
           Inl e \<Rightarrow> ((Embedding v, c2), Some e)
         | Inr c3 \<Rightarrow> image_pass os fs gen add ((subdir, after) # walk1) (Embedding v, c3)) \<and>
      (add = collection_add \<longrightarrow>
         fst (image_pass os fs gen add (walk0 @ (subdir, before @ fname # after) # walk1) st) =
           (Embedding v,
            if take (length (path_basename os fname) - 4) (path_basename os fname)
                 \<in> set (map entry_id c2)
            then c2
            else c2 @
              [\<lparr> entry_id =
                    take (length (path_basename os fname) - 4) (path_basename os fname),
                  embedding = v,
                  metadata =
                    [(ascii ''product_id'', drop 5 (path_basename os subdir)),
                     (ascii ''image_id'',
                      take (length (path_basename os fname) - 4) (path_basename os fname))],
                  document = None \<rparr>]))) \<and>
   (image_pass os fs gen collection_add walk (b, c) = ((b', c'), r) \<and>
    w \<in> set c' \<and> w \<notin> set c \<longrightarrow>
      (\<exists>(dir, files) \<in> set walk. \<exists>name \<in> set files.
         endswith (lower name) image_extensions \<and>
         w = image_entry os dir name (embedding w) \<and>
         map_of (metadata w) (ascii ''product_id'') = Some (drop 5 (path_basename os dir)) \<and>
         (\<exists>t. image_to_base64 fs (path_join os dir name) = Inr t \<and>
              gen t = Inr (embedding w)))) \<and>
   (path_basename os subdir = ascii ''prod_42'' \<longrightarrow>
      drop 5 (path_basename os subdir) = ascii ''42'')"
proof (intro conjI impI)
  assume a: "image_pass os fs gen add walk0 st = ((Generator, c1), None) \<and>
    image_files os fs gen add subdir before (Generator, c1) = ((Generator, c2), None) \<and>
    endswith (lower fname) image_extensions \<and>
    image_to_base64 fs (path_join os subdir fname) = Inr t \<and> gen t = Inr v"
  then show "image_pass os fs gen add (walk0 @ (subdir, before @ fname # after) # walk1) st =
        (case add c2
                \<lparr> entry_id =
                    take (length (path_basename os fname) - 4) (path_basename os fname),
                  embedding = v,
                  metadata =
                    [(ascii ''product_id'', drop 5 (path_basename os subdir)),
                     (ascii ''image_id'',
                      take (length (path_basename os fname) - 4) (path_basename os fname))],
                  document = None \<rparr> of
           Inl e \<Rightarrow> ((Embedding v, c2), Some e)
         | Inr c3 \<Rightarrow> image_pass os fs gen add ((subdir, after) # walk1) (Embedding v, c3))"
    using image_pass_step [of os fs gen add walk0 st c1 subdir before c2 fname t v after walk1]
    by (simp add: image_entry_def)
next
  assume a: "image_pass os fs gen add walk0 st = ((Generator, c1), None) \<and>
    image_files os fs gen add subdir before (Generator, c1) = ((Generator, c2), None) \<and>
    endswith (lower fname) image_extensions \<and>
    image_to_base64 fs (path_join os subdir fname) = Inr t \<and> gen t = Inr v"
    and add: "add = collection_add"
  obtain c3 where c3: "collection_add c2 (image_entry os subdir fname v) = Inr c3"
    using collection_add_total by blast
  obtain b4 c4 r4
    where rest: "image_pass os fs gen add ((subdir, after) # walk1) (Embedding v, c3) =
      ((b4, c4), r4)"
    by (metis surj_pair)
  from image_pass_stuck [OF rest] have s: "b4 = Embedding v" "c4 = c3" by simp_all
  from a add c3 rest s
    image_pass_step [of os fs gen add walk0 st c1 subdir before c2 fname t v after walk1]
  have "fst (image_pass os fs gen add (walk0 @ (subdir, before @ fname # after) # walk1) st) =
    (Embedding v, c3)"
    by simp
  moreover from c3 have "c3 =
    (if entry_id (image_entry os subdir fname v) \<in> set (map entry_id c2) then c2
     else c2 @ [image_entry os subdir fname v])"
    by (auto simp: collection_add_def split: if_splits)
  ultimately
  show "fst (image_pass os fs gen add (walk0 @ (subdir, before @ fname # after) # walk1) st) =
           (Embedding v,
            if take (length (path_basename os fname) - 4) (path_basename os fname)
                 \<in> set (map entry_id c2)
            then c2
            else c2 @
              [\<lparr> entry_id =
                    take (length (path_basename os fname) - 4) (path_basename os fname),
                  embedding = v,
                  metadata =
                    [(ascii ''product_id'', drop 5 (path_basename os subdir)),
                     (ascii ''image_id'',
                      take (length (path_basename os fname) - 4) (path_basename os fname))],
                  document = None \<rparr>])"
    by (simp add: image_entry_def)
next
  assume "image_pass os fs gen collection_add walk (b, c) = ((b', c'), r) \<and>
    w \<in> set c' \<and> w \<notin> set c"
  then obtain dir files name t0 v0
    where m: "(dir, files) \<in> set walk" "name \<in> set files"
      "endswith (lower name) image_extensions"
      and t: "image_to_base64 fs (path_join os dir name) = Inr t0"
      and v: "gen t0 = Inr v0" "w = image_entry os dir name v0"
    using image_pass_written [of os fs gen walk b c b' c' r w] by auto
  from v have "w = image_entry os dir name (embedding w)"
    and "map_of (metadata w) (ascii ''product_id'') = Some (drop 5 (path_basename os dir))"
    and "gen t0 = Inr (embedding w)"
    by (simp_all add: image_entry_def)
  with m t show "\<exists>(dir, files) \<in> set walk. \<exists>name \<in> set files.
         endswith (lower name) image_extensions \<and>
         w = image_entry os dir name (embedding w) \<and>
         map_of (metadata w) (ascii ''product_id'') = Some (drop 5 (path_basename os dir)) \<and>
         (\<exists>t. image_to_base64 fs (path_join os dir name) = Inr t \<and>
              gen t = Inr (embedding w))"
    by blast
next
  assume "path_basename os subdir = ascii ''prod_42''"
  then show "drop 5 (path_basename os subdir) = ascii ''42''" by (simp add: ascii_def)
qed

theorem product_id_of_parent_directory_witness:
  "image_pass posixpath [ascii ''data/prod_42/7.jpg'' \<mapsto> map of_nat (ascii ''foo'')]
     (\<lambda>t. Inr (length t)) collection_add
     [(ascii ''data'', [ascii ''readme.txt''])] (Generator, [])
   = ((Generator, []), None) \<and>
   image_files posixpath [ascii ''data/prod_42/7.jpg'' \<mapsto> map of_nat (ascii ''foo'')]
     (\<lambda>t. Inr (length t)) collection_add
     (ascii ''data/prod_42'') [ascii ''notes.txt''] (Generator, [])
   = ((Generator, []), None) \<and>
   image_to_base64 [ascii ''data/prod_42/7.jpg'' \<mapsto> map of_nat (ascii ''foo'')]
     (path_join posixpath (ascii ''data/prod_42'') (ascii ''7.jpg'')) = Inr (ascii ''Zm9v'') \<and>
   path_basename posixpath (ascii ''data/prod_42'') = ascii ''prod_42'' \<and>
   image_pass posixpath [ascii ''data/prod_42/7.jpg'' \<mapsto> map of_nat (ascii ''foo'')]
     (\<lambda>t. Inr (length t)) collection_add
     ([(ascii ''data'', [ascii ''readme.txt''])] @
      (ascii ''data/prod_42'', [ascii ''notes.txt''] @ ascii ''7.jpg'' # []) # [])
     (Generator, [])
   = ((Embedding 4,
       [\<lparr> entry_id = ascii ''7'', embedding = 4,
          metadata = [(ascii ''product_id'', ascii ''42''), (ascii ''image_id'', ascii ''7'')],
          document = None \<rparr>]), None)"
  using product_id_of_parent_directory
    [where os = posixpath
       and fs = "[ascii ''data/prod_42/7.jpg'' \<mapsto> map of_nat (ascii ''foo'')]"
       and gen = "\<lambda>t. Inr (length t)" and add = collection_add
       and ?walk0.0 = "[(ascii ''data'', [ascii ''readme.txt''])]"
       and st = "(Generator, [])" and ?c1.0 = "[]"
       and subdir = "ascii ''data/prod_42''" and before = "[ascii ''notes.txt'']"
       and ?c2.0 = "[]" and fname = "ascii ''7.jpg''" and t = "ascii ''Zm9v''" and v = 4
       and after = "[]" and ?walk1.0 = "[]"
       and walk = "[(ascii ''data'', [ascii ''readme.txt'']),
                    (ascii ''data/prod_42'', [ascii ''notes.txt'', ascii ''7.jpg''])]"
       and b = Generator and c = "[]" and b' = "Embedding 4"
       and c' = "[image_entry posixpath (ascii ''data/prod_42'') (ascii ''7.jpg'') 4]"
       and r = None
       and w = "image_entry posixpath (ascii ''data/prod_42'') (ascii ''7.jpg'') 4"]
  by (simp add: image_eval)

text \<open>
  C5, at an input where the code departs from it. The id of an entry is the name
  of the file without its last four characters. For a file \<open>photo.jpeg\<close>, whose
  extension is one of \<open>image_extensions\<close> and has five characters, the id and
  the \<open>image_id\<close> are \<open>photo.\<close>, with the dot, not \<open>photo\<close>.
\<close>

theorem image_id_jpeg_keeps_dot:
  "image_pass posixpath [ascii ''data/prod_42/photo.jpeg'' \<mapsto> map of_nat (ascii ''foo'')]
     (\<lambda>t. Inr (length t)) collection_add
     [(ascii ''data/prod_42'', [ascii ''photo.jpeg''])] (Generator, [])
   = ((Embedding 4,
       [\<lparr> entry_id = ascii ''photo.'', embedding = 4,
          metadata = [(ascii ''product_id'', ascii ''42''), (ascii ''image_id'', ascii ''photo.'')],
          document = None \<rparr>]), None)"
  by (simp add: image_eval)

text \<open>
  C6, at an input where the code departs from it. With two image files in a
  directory, the first is read, embedded and added; at the second, the name
  \<open>image_embedding\<close> holds the embedding of the first, and the cell ends with
  \<open>AttributeError\<close>: the second file gets no entry.
\<close>

theorem second_image_raises:
  "image_pass posixpath
     [ascii ''data/prod_42/a.jpg'' \<mapsto> map of_nat (ascii ''foo''),
      ascii ''data/prod_42/b.jpg'' \<mapsto> map of_nat (ascii ''foobar'')]
     (\<lambda>t. Inr (length t)) collection_add
     [(ascii ''data/prod_42'', [ascii ''a.jpg'', ascii ''b.jpg''])] (Generator, [])
   = ((Embedding 4,
       [\<lparr> entry_id = ascii ''a'', embedding = 4,
          metadata = [(ascii ''product_id'', ascii ''42''), (ascii ''image_id'', ascii ''a'')],
          document = None \<rparr>]), Some AttributeError)"
  by (simp add: image_eval)

text \<open>
  C10. Every entry the text cell writes has its own id under the key \<open>id\<close> of
  its metadata, and that id is \<open>str\<close> of the \<open>Id\<close> of an item of the input;
  every entry the image cell writes has its own id under the key \<open>image_id\<close>.
\<close>

theorem id_repeated_in_metadata:
  "(text_pass gen collection_add items c = (c', r) \<and> e \<in> set c' \<and> e \<notin> set c \<longrightarrow>
      map_of (metadata e) (ascii ''id'') = Some (entry_id e) \<and>
      (\<exists>it \<in> set items. entry_id e = py_str (item_Id it))) \<and>
   (image_pass os fs igen collection_add walk (b, ic) = ((b', ic'), ir) \<and>
    ie \<in> set ic' \<and> ie \<notin> set ic \<longrightarrow>
      map_of (metadata ie) (ascii ''image_id'') = Some (entry_id ie))"
proof (intro conjI impI)
  assume "text_pass gen collection_add items c = (c', r) \<and> e \<in> set c' \<and> e \<notin> set c"
  then obtain it v where it: "it \<in> set items" "e = text_entry it v"
    using text_pass_written [of gen items c c' r e] by blast
  then show "map_of (metadata e) (ascii ''id'') = Some (entry_id e)"
    by (simp add: text_entry_def)
  from it show "\<exists>it \<in> set items. entry_id e = py_str (item_Id it)"
    by (auto simp: text_entry_def)
next
  assume "image_pass os fs igen collection_add walk (b, ic) = ((b', ic'), ir) \<and>
    ie \<in> set ic' \<and> ie \<notin> set ic"
  then obtain subdir fname v where "ie = image_entry os subdir fname v"
    using image_pass_written [of os fs igen walk b ic b' ic' ir ie] by auto
  then show "map_of (metadata ie) (ascii ''image_id'') = Some (entry_id ie)"
    by (simp add: image_entry_def ascii_def)
qed

theorem id_repeated_in_metadata_witness:
  "text_pass (\<lambda>t. Inr (length t)) collection_add
     [\<lparr> item_Id = IdInt 12, item_Name = ascii ''Atlas'', item_Description = ascii ''A map'' \<rparr>] []
   = ([text_entry \<lparr> item_Id = IdInt 12, item_Name = ascii ''Atlas'',
         item_Description = ascii ''A map'' \<rparr> 36], None) \<and>
   map_of (metadata (text_entry \<lparr> item_Id = IdInt 12, item_Name = ascii ''Atlas'',
         item_Description = ascii ''A map'' \<rparr> (36::nat))) (ascii ''id'') = Some (ascii ''12'') \<and>
   image_pass posixpath [ascii ''data/prod_42/7.jpg'' \<mapsto> map of_nat (ascii ''foo'')]
     (\<lambda>t. Inr (length t)) collection_add
     [(ascii ''data/prod_42'', [ascii ''7.jpg''])] (Generator, [])
   = ((Embedding 4,
       [image_entry posixpath (ascii ''data/prod_42'') (ascii ''7.jpg'') 4]), None) \<and>
   map_of (metadata (image_entry posixpath (ascii ''data/prod_42'') (ascii ''7.jpg'') (4::nat)))
     (ascii ''image_id'') = Some (ascii ''7'')"
  using id_repeated_in_metadata
    [of "\<lambda>t. Inr (length t)"
        "[\<lparr> item_Id = IdInt 12, item_Name = ascii ''Atlas'', item_Description = ascii ''A map'' \<rparr>]"
        "[]"
        "[text_entry \<lparr> item_Id = IdInt 12, item_Name = ascii ''Atlas'',
            item_Description = ascii ''A map'' \<rparr> 36]"
        None
        "text_entry \<lparr> item_Id = IdInt 12, item_Name = ascii ''Atlas'',
            item_Description = ascii ''A map'' \<rparr> 36"
        posixpath "[ascii ''data/prod_42/7.jpg'' \<mapsto> map of_nat (ascii ''foo'')]"
        "\<lambda>t. Inr (length t)"
        "[(ascii ''data/prod_42'', [ascii ''7.jpg''])]"
        Generator "[]" "Embedding 4"
        "[image_entry posixpath (ascii ''data/prod_42'') (ascii ''7.jpg'') 4]"
        None
        "image_entry posixpath (ascii ''data/prod_42'') (ascii ''7.jpg'') 4"]
  by (simp add: image_eval text_eval)

section \<open>The claim about opening the store\<close>

text \<open>
  C7. On an empty store the cell creates exactly two collections, named
  \<open>text_chroma_db\<close> and \<open>image_chroma_db\<close>, each created with the metadata
  \<open>hnsw:space = cosine\<close>. A second get-or-create call with the same name
  returns the same collection and leaves the store as it is, whatever metadata
  it passes; running the cell again returns the same two collections, and the
  cell adds no other name to the store.
\<close>

theorem open_collections_two:
  "open_collections ([] :: 'v client) =
     ([\<lparr> coll_name = ascii ''text_chroma_db'',
         coll_metadata = [(ascii ''hnsw:space'', ascii ''cosine'')], coll_entries = [] \<rparr>,
       \<lparr> coll_name = ascii ''image_chroma_db'',
         coll_metadata = [(ascii ''hnsw:space'', ascii ''cosine'')], coll_entries = [] \<rparr>],
      \<lparr> coll_name = ascii ''text_chroma_db'',
         coll_metadata = [(ascii ''hnsw:space'', ascii ''cosine'')], coll_entries = [] \<rparr>,
      \<lparr> coll_name = ascii ''image_chroma_db'',
         coll_metadata = [(ascii ''hnsw:space'', ascii ''cosine'')], coll_entries = [] \<rparr>) \<and>
   (get_or_create_collection client name md = (client1, h) \<longrightarrow>
      get_or_create_collection client1 name md' = (client1, h) \<and> coll_name h = name) \<and>
   (open_collections client = (client2, text_collection, image_collection) \<longrightarrow>
      open_collections client2 = (client2, text_collection, image_collection) \<and>
      coll_name text_collection = ascii ''text_chroma_db'' \<and>
      coll_name image_collection = ascii ''image_chroma_db'' \<and>
      set (map coll_name client2) =
        set (map coll_name client) \<union> {ascii ''text_chroma_db'', ascii ''image_chroma_db''})"
proof (intro conjI impI)
  show "open_collections ([] :: 'v client) =
     ([\<lparr> coll_name = ascii ''text_chroma_db'',
         coll_metadata = [(ascii ''hnsw:space'', ascii ''cosine'')], coll_entries = [] \<rparr>,
       \<lparr> coll_name = ascii ''image_chroma_db'',
         coll_metadata = [(ascii ''hnsw:space'', ascii ''cosine'')], coll_entries = [] \<rparr>],
      \<lparr> coll_name = ascii ''text_chroma_db'',
         coll_metadata = [(ascii ''hnsw:space'', ascii ''cosine'')], coll_entries = [] \<rparr>,
      \<lparr> coll_name = ascii ''image_chroma_db'',
         coll_metadata = [(ascii ''hnsw:space'', ascii ''cosine'')], coll_entries = [] \<rparr>)"
    by (simp add: open_collections_def get_or_create_collection_def ascii_def)
next
  assume "get_or_create_collection client name md = (client1, h)"
  from get_or_create_again [OF this]
  show "get_or_create_collection client1 name md' = (client1, h)" and "coll_name h = name"
    by simp_all
next
  assume a: "open_collections client = (client2, text_collection, image_collection)"
  obtain k where k: "get_or_create_collection client (ascii ''text_chroma_db'')
      [(ascii ''hnsw:space'', ascii ''cosine'')] = (k, text_collection)"
    and i: "get_or_create_collection k (ascii ''image_chroma_db'')
      [(ascii ''hnsw:space'', ascii ''cosine'')] = (client2, image_collection)"
    using a by (auto simp: open_collections_def split: prod.splits)
  note tk = get_or_create_again [OF k, of "[(ascii ''hnsw:space'', ascii ''cosine'')]"]
  note ii = get_or_create_again [OF i, of "[(ascii ''hnsw:space'', ascii ''cosine'')]"]
  from tk have "find (\<lambda>c. coll_name c = ascii ''text_chroma_db'') k = Some text_collection"
    by (auto simp: get_or_create_collection_def split: option.splits)
  from get_or_create_keeps [OF i this]
  have "get_or_create_collection client2 (ascii ''text_chroma_db'')
      [(ascii ''hnsw:space'', ascii ''cosine'')] = (client2, text_collection)"
    by (simp add: get_or_create_collection_def)
  with ii show "open_collections client2 = (client2, text_collection, image_collection)"
    by (simp add: open_collections_def)
  from tk show "coll_name text_collection = ascii ''text_chroma_db''" by simp
  from ii show "coll_name image_collection = ascii ''image_chroma_db''" by simp
  from tk ii show "set (map coll_name client2) =
        set (map coll_name client) \<union> {ascii ''text_chroma_db'', ascii ''image_chroma_db''}"
    by auto
qed

theorem open_collections_two_witness:
  "open_collections
     [\<lparr> coll_name = ascii ''text_chroma_db'',
        coll_metadata = [(ascii ''hnsw:space'', ascii ''cosine'')],
        coll_entries = [\<lparr> entry_id = ascii ''1'', embedding = 0::nat, metadata = [],
                          document = None \<rparr>] \<rparr>]
   = ([\<lparr> coll_name = ascii ''text_chroma_db'',
         coll_metadata = [(ascii ''hnsw:space'', ascii ''cosine'')],
         coll_entries = [\<lparr> entry_id = ascii ''1'', embedding = 0, metadata = [],
                          document = None \<rparr>] \<rparr>,
       \<lparr> coll_name = ascii ''image_chroma_db'',
         coll_metadata = [(ascii ''hnsw:space'', ascii ''cosine'')], coll_entries = [] \<rparr>],
      \<lparr> coll_name = ascii ''text_chroma_db'',
         coll_metadata = [(ascii ''hnsw:space'', ascii ''cosine'')],
         coll_entries = [\<lparr> entry_id = ascii ''1'', embedding = 0, metadata = [],
                          document = None \<rparr>] \<rparr>,
      \<lparr> coll_name = ascii ''image_chroma_db'',
         coll_metadata = [(ascii ''hnsw:space'', ascii ''cosine'')], coll_entries = [] \<rparr>) \<and>
   open_collections
     [\<lparr> coll_name = ascii ''text_chroma_db'',
         coll_metadata = [(ascii ''hnsw:space'', ascii ''cosine'')],
         coll_entries = [\<lparr> entry_id = ascii ''1'', embedding = 0::nat, metadata = [],
                          document = None \<rparr>] \<rparr>,
       \<lparr> coll_name = ascii ''image_chroma_db'',
         coll_metadata = [(ascii ''hnsw:space'', ascii ''cosine'')], coll_entries = [] \<rparr>]
   = ([\<lparr> coll_name = ascii ''text_chroma_db'',
         coll_metadata = [(ascii ''hnsw:space'', ascii ''cosine'')],
         coll_entries = [\<lparr> entry_id = ascii ''1'', embedding = 0, metadata = [],
                          document = None \<rparr>] \<rparr>,
       \<lparr> coll_name = ascii ''image_chroma_db'',
         coll_metadata = [(ascii ''hnsw:space'', ascii ''cosine'')], coll_entries = [] \<rparr>],
      \<lparr> coll_name = ascii ''text_chroma_db'',
         coll_metadata = [(ascii ''hnsw:space'', ascii ''cosine'')],
         coll_entries = [\<lparr> entry_id = ascii ''1'', embedding = 0, metadata = [],
                          document = None \<rparr>] \<rparr>,
      \<lparr> coll_name = ascii ''image_chroma_db'',
         coll_metadata = [(ascii ''hnsw:space'', ascii ''cosine'')], coll_entries = [] \<rparr>)"
  using open_collections_two
    [THEN conjunct2, THEN conjunct2,
     of "[\<lparr> coll_name = ascii ''text_chroma_db'',
        coll_metadata = [(ascii ''hnsw:space'', ascii ''cosine'')],
        coll_entries = [\<lparr> entry_id = ascii ''1'', embedding = 0::nat, metadata = [],
                          document = None \<rparr>] \<rparr>]"
      "[\<lparr> coll_name = ascii ''text_chroma_db'',
         coll_metadata = [(ascii ''hnsw:space'', ascii ''cosine'')],
         coll_entries = [\<lparr> entry_id = ascii ''1'', embedding = 0, metadata = [],
                          document = None \<rparr>] \<rparr>,
       \<lparr> coll_name = ascii ''image_chroma_db'',
         coll_metadata = [(ascii ''hnsw:space'', ascii ''cosine'')], coll_entries = [] \<rparr>]"
      "\<lparr> coll_name = ascii ''text_chroma_db'',
         coll_metadata = [(ascii ''hnsw:space'', ascii ''cosine'')],
         coll_entries = [\<lparr> entry_id = ascii ''1'', embedding = 0, metadata = [],
                          document = None \<rparr>] \<rparr>"
      "\<lparr> coll_name = ascii ''image_chroma_db'',
         coll_metadata = [(ascii ''hnsw:space'', ascii ''cosine'')], coll_entries = [] \<rparr>"]
  by (simp add: open_collections_def get_or_create_collection_def ascii_def)

text \<open>
  C7 as the specification words it fails: the two collections are not named
  \<open>text\<close> and \<open>image\<close>.
\<close>

theorem collection_names_counterexample:
  "map coll_name (fst (open_collections ([] :: nat client))) =
     [ascii ''text_chroma_db'', ascii ''image_chroma_db''] \<and>
   map coll_name (fst (open_collections ([] :: nat client))) \<noteq> [ascii ''text'', ascii ''image'']"
  by (simp add: open_collections_def get_or_create_collection_def ascii_def)

end
